(* ===== verification/Prelude.thy ===== *)
theory Prelude
  imports Complex_Main "HOL-Library.List_Lexorder" "HOL-Library.Char_ord" "HOL-Library.Multiset"
begin

text \<open>
  Shared material of the expense-tracker development: the collection of model
  definitions that component proofs unfold, and the generic list facts the
  components share.  The central generic operation is \<open>sort_desc\<close>, the model
  of an SQL \<open>ORDER BY k DESC\<close> clause: a stable insertion sort on a key, largest
  key first.  Strings are \<open>char list\<close> ordered by \<^theory_text>\<open>List_Lexorder\<close> over
  \<^theory_text>\<open>Char_ord\<close>, i.e. byte-wise lexicographic order with a proper prefix first,
  which is SQLite's BINARY collation on UTF-8 text (see \<open>Sqlite\<close>).
\<close>

named_theorems model_defs "definitions of the storage model unfolded by component proofs"

subsection \<open>Descending order on a key\<close>

abbreviation sorted_desc :: "('a \<Rightarrow> 'k::linorder) \<Rightarrow> 'a list \<Rightarrow> bool" where
  "sorted_desc k xs \<equiv> sorted_wrt (\<lambda>a b. k b \<le> k a) xs"

text \<open>
  Insertion of one element in front of the first element whose key is not larger:
  an element inserted later into the result of the scan's remainder lands before the
  elements of equal key, so \<open>sort_desc\<close> keeps the scan order among equal keys.
\<close>

fun insort_desc :: "('a \<Rightarrow> 'k::linorder) \<Rightarrow> 'a \<Rightarrow> 'a list \<Rightarrow> 'a list" where
  "insort_desc k x [] = [x]"
| "insort_desc k x (y # ys) =
     (if k y \<le> k x then x # y # ys else y # insort_desc k x ys)"

definition sort_desc :: "('a \<Rightarrow> 'k::linorder) \<Rightarrow> 'a list \<Rightarrow> 'a list" where
  "sort_desc k xs = foldr (insort_desc k) xs []"

lemma sort_desc_simps [simp]:
  "sort_desc k [] = []"
  "sort_desc k (x # xs) = insort_desc k x (sort_desc k xs)"
  by (simp_all add: sort_desc_def)

lemma mset_insort_desc [simp]: "mset (insort_desc k x xs) = add_mset x (mset xs)"
  by (induction xs) auto

lemma mset_sort_desc [simp]: "mset (sort_desc k xs) = mset xs"
  by (induction xs) auto

lemma set_sort_desc [simp]: "set (sort_desc k xs) = set xs"
  by (metis mset_sort_desc set_mset_mset)

lemma length_sort_desc [simp]: "length (sort_desc k xs) = length xs"
  by (metis mset_sort_desc size_mset)

lemma set_insort_desc: "set (insort_desc k x xs) = insert x (set xs)"
  by (metis mset_insort_desc set_mset_add_mset_insert set_mset_mset)

lemma sorted_desc_insort:
  "sorted_desc k xs \<Longrightarrow> sorted_desc k (insort_desc k x xs)"
  by (induction xs) (auto simp: set_insort_desc)

lemma sorted_desc_sort_desc: "sorted_desc k (sort_desc k xs)"
  by (induction xs) (auto intro: sorted_desc_insort)

lemma filter_insort_desc_other:
  "k x \<noteq> c \<Longrightarrow> filter (\<lambda>y. k y = c) (insort_desc k x ys) = filter (\<lambda>y. k y = c) ys"
  by (induction ys) auto

lemma filter_insort_desc_same:
  "sorted_desc k ys \<Longrightarrow> k x = c \<Longrightarrow>
   filter (\<lambda>y. k y = c) (insort_desc k x ys) = x # filter (\<lambda>y. k y = c) ys"
  by (induction ys) auto

text \<open>Stability: among elements of one key, the sorted list keeps the input order.\<close>

lemma filter_sort_desc_key:
  "filter (\<lambda>y. k y = c) (sort_desc k xs) = filter (\<lambda>y. k y = c) xs"
proof (induction xs)
  case Nil
  then show ?case by simp
next
  case (Cons x xs)
  show ?case
  proof (cases "k x = c")
    case True
    then show ?thesis
      using Cons.IH by (simp add: filter_insort_desc_same sorted_desc_sort_desc)
  next
    case False
    then show ?thesis
      using Cons.IH by (simp add: filter_insort_desc_other)
  qed
qed

lemma sorted_desc_rev_map: "sorted_desc k xs \<Longrightarrow> sorted (rev (map k xs))"
  by (simp add: sorted_wrt_rev sorted_wrt_map)

text \<open>
  Two lists sorted descending on the same key with the same elements agree on the
  key sequence: they can differ only in the order of elements of equal key.
\<close>

lemma sorted_desc_same_keys:
  assumes "sorted_desc k xs" and "sorted_desc k ys" and "mset xs = mset ys"
  shows "map k xs = map k ys"
proof -
  have m: "mset (rev (map k xs)) = mset (rev (map k ys))"
    using assms(3) by (simp add: mset_map)
  have "sort (rev (map k ys)) = rev (map k xs)"
    using m assms(1) by (intro properties_for_sort) (simp_all add: sorted_desc_rev_map)
  moreover have "sort (rev (map k ys)) = rev (map k ys)"
    using assms(2) by (simp add: sorted_desc_rev_map sorted_sort_id)
  ultimately show ?thesis by simp
qed

subsection \<open>Aggregates over a filtered list depend on its multiset only\<close>

lemma sum_list_filter_mset:
  assumes "mset xs = mset ys"
  shows "sum_list (map (f :: 'a \<Rightarrow> 'b::comm_monoid_add) (filter P xs)) = sum_list (map f (filter P ys))"
proof -
  have "mset (map f (filter P xs)) = mset (map f (filter P ys))"
    using assms by simp
  then have "sum_mset (mset (map f (filter P xs))) = sum_mset (mset (map f (filter P ys)))"
    by (rule arg_cong)
  then show ?thesis by (simp only: sum_mset_sum_list)
qed

lemma length_filter_mset:
  assumes "mset xs = mset ys"
  shows "length (filter P xs) = length (filter P ys)"
proof -
  have "mset (filter P xs) = mset (filter P ys)"
    using assms by simp
  then show ?thesis by (rule mset_eq_length)
qed

end
