(* ===== verification/Runtime.thy ===== *)
theory Runtime
  imports Prelude
begin

text \<open>
  The runtime the program relies on and does not define: the parts of SQLite's and
  Python's semantics that \<open>src/main.py\<close> depends on.  SQLite values (\<open>sql_value\<close>),
  its error results (\<open>storage_error\<close>), the BINARY collation that compares \<open>TEXT\<close>
  (\<open>text_le\<close>) and the \<open>BETWEEN\<close> operator built on it, the rowid allocation of an
  \<open>INTEGER PRIMARY KEY AUTOINCREMENT\<close> column (\<open>autoinc_rowid\<close>, with the 64-bit
  bound), the count of \<open>?\<close> placeholders that parameter binding checks, the injected
  storage faults (\<open>faults\<close>), and Python's truth value of an optional string.
\<close>

subsection \<open>Values and errors\<close>

text \<open>
  SQLite's storage classes, as the \<open>sqlite3\<close> module converts them to and from
  Python: \<open>NULL\<close>/\<open>None\<close>, \<open>INTEGER\<close>/\<open>int\<close>, \<open>REAL\<close>/\<open>float\<close> and
  \<open>TEXT\<close>/\<open>str\<close>.  \<open>REAL\<close> is modelled as an exact real: IEEE rounding is not
  modelled.  \<open>TEXT\<close> is the UTF-8 byte string (a \<open>char\<close> is a byte).
\<close>

datatype sql_value = Null | Integer int | Real real | Text string

text \<open>
  The failures of the storage layer that reach the caller as exceptions (the spec's
  \<open>StorageError\<close>): the file cannot be opened, the database is locked by another
  writer, the rowid space is exhausted, an I/O error, a missing table, a statement
  the engine rejects, and a parameter list whose length differs from the statement's
  placeholders (\<open>sqlite3.ProgrammingError\<close>).
\<close>

datatype storage_error =
    CantOpen | Busy | Full | IOError | NoSuchTable | SqlError | BindingMismatch

text \<open>
  A Python \<open>dict\<close> returned to the dispatcher, as its key/value pairs in
  insertion order (the keys of the dicts this program builds are distinct).
\<close>

type_synonym py_dict = "(string \<times> sql_value) list"

subsection \<open>The BINARY collation and BETWEEN\<close>

text \<open>
  SQLite compares two \<open>TEXT\<close> values under the BINARY collation with \<open>memcmp\<close> on
  the common prefix, the shorter string first when one is a prefix of the other.
\<close>

fun text_le :: "string \<Rightarrow> string \<Rightarrow> bool" where
  "text_le [] ys = True"
| "text_le (x # xs) [] = False"
| "text_le (x # xs) (y # ys) =
     (if (of_char x :: nat) = of_char y then text_le xs ys else (of_char x :: nat) < of_char y)"

text \<open>\<open>x BETWEEN lo AND hi\<close> is \<open>x >= lo AND x <= hi\<close>, both ends inclusive.\<close>

definition sql_between :: "string \<Rightarrow> string \<Rightarrow> string \<Rightarrow> bool" where
  "sql_between x lo hi \<longleftrightarrow> text_le lo x \<and> text_le x hi"

subsection \<open>Rowid allocation of an AUTOINCREMENT key\<close>

text \<open>
  A rowid is a signed 64-bit integer.  With \<open>AUTOINCREMENT\<close> the new rowid is one
  more than the largest rowid the table has ever held, that is the larger of the
  \<open>sqlite_sequence\<close> entry and the largest rowid present; when that is already the
  largest 64-bit value the insert fails with \<open>SQLITE_FULL\<close>.
\<close>

definition max_rowid :: int where
  "max_rowid = 2 ^ 63 - 1"

definition autoinc_rowid :: "int \<Rightarrow> int list \<Rightarrow> storage_error + int" where
  "autoinc_rowid sq ids =
     (let m = fold max ids sq in if max_rowid \<le> m then Inl Full else Inr (m + 1))"

subsection \<open>Parameter binding\<close>

text \<open>
  The \<open>sqlite3\<close> module binds a parameter sequence to the statement's \<open>?\<close>
  placeholders in order and raises \<open>ProgrammingError\<close> when their numbers differ.
  The statements of this program hold no string literals, so every \<open>?\<close> of the text
  is a placeholder.
\<close>

definition placeholders :: "string \<Rightarrow> nat" where
  "placeholders q = length (filter (\<lambda>c. c = CHR ''?'') q)"

subsection \<open>Injected storage faults\<close>

text \<open>
  Whether the storage layer fails is not under the program's control.  Each call
  receives the outcome of its three storage actions: opening the connection,
  executing its statement (with the reads of its results), and committing.
\<close>

record faults =
  connect_fault :: "storage_error option"
  execute_fault :: "storage_error option"
  commit_fault :: "storage_error option"

definition no_faults :: faults where
  "no_faults = \<lparr>connect_fault = None, execute_fault = None, commit_fault = None\<rparr>"

subsection \<open>Python truth value of an optional string\<close>

text \<open>\<open>if category:\<close> is false for \<open>None\<close> and for the empty string.\<close>

fun py_truthy :: "string option \<Rightarrow> bool" where
  "py_truthy None = False"
| "py_truthy (Some s) = (s \<noteq> [])"

subsection \<open>Facts about the runtime semantics\<close>

declare autoinc_rowid_def [model_defs] max_rowid_def [model_defs] no_faults_def [model_defs]

lemma text_le_iff [simp]: "text_le xs ys \<longleftrightarrow> xs \<le> ys"
proof (induction xs ys rule: text_le.induct)
  case (3 x xs y ys)
  then show ?case
    by (auto simp: less_char_def)
qed simp_all

lemma sql_between_iff [simp]: "sql_between x lo hi \<longleftrightarrow> lo \<le> x \<and> x \<le> hi"
  by (simp add: sql_between_def)

lemma fold_max_Max: "fold max ids (sq::int) = Max (insert sq (set ids))"
  by (metis Max.set_eq_fold list.set(2))

lemma autoinc_rowid_Inr:
  "autoinc_rowid sq ids = Inr r \<Longrightarrow> sq < r \<and> (\<forall>i\<in>set ids. i < r) \<and> r \<le> max_rowid"
  by (auto simp: autoinc_rowid_def fold_max_Max Let_def split: if_splits)

lemma autoinc_rowid_seq:
  "\<forall>i\<in>set ids. i \<le> sq \<Longrightarrow> autoinc_rowid sq ids =
     (if max_rowid \<le> sq then Inl Full else Inr (sq + 1))"
proof -
  assume "\<forall>i\<in>set ids. i \<le> sq"
  then have "Max (insert sq (set ids)) = sq" by (auto intro: Max_eqI)
  then show ?thesis by (simp add: autoinc_rowid_def fold_max_Max)
qed

lemma placeholders_append [simp]: "placeholders (xs @ ys) = placeholders xs + placeholders ys"
  by (simp add: placeholders_def)

lemma no_faults_sel [simp]:
  "connect_fault no_faults = None" "execute_fault no_faults = None"
  "commit_fault no_faults = None"
  by (simp_all add: no_faults_def)

end
