(* ===== verification/Schema.thy ===== *)
theory Schema
  imports Runtime
begin

text \<open>
  The persistent state and the schema initializer (\<open>init_db\<close>, src/main.py lines
  16--28).  The database file holds one table of interest, \<open>expenses\<close>; its rows are
  kept in rowid order, as SQLite's table B-tree scans them, together with the
  table's \<open>sqlite_sequence\<close> entry.  A connection (\<open>conn\<close>) sees the committed
  state and, while an implicit transaction is open, its own pending state;
  closing the connection discards what was not committed.
\<close>

subsection \<open>Rows, columns, tables\<close>

text \<open>One row of \<open>expenses\<close>; \<open>id INTEGER PRIMARY KEY\<close> is the rowid, and the
  column \<open>note\<close> is the field \<open>note_text\<close> (\<open>note\<close> is an Isar keyword).\<close>

record expense =
  rowid :: int
  date :: string
  amount :: real
  category :: string
  subcategory :: "string option"
  note_text :: "string option"

datatype col_type = INTEGER | TEXT | REAL

record column_def =
  col_name :: string
  col_type :: col_type
  col_not_null :: bool
  col_key :: bool

text \<open>The column list of the \<open>CREATE TABLE\<close> statement (lines 19--26).\<close>

definition expenses_columns :: "column_def list" where
  "expenses_columns =
    [\<lparr>col_name = ''id'', col_type = INTEGER, col_not_null = False, col_key = True\<rparr>,
     \<lparr>col_name = ''date'', col_type = TEXT, col_not_null = True, col_key = False\<rparr>,
     \<lparr>col_name = ''amount'', col_type = REAL, col_not_null = True, col_key = False\<rparr>,
     \<lparr>col_name = ''category'', col_type = TEXT, col_not_null = True, col_key = False\<rparr>,
     \<lparr>col_name = ''subcategory'', col_type = TEXT, col_not_null = False, col_key = False\<rparr>,
     \<lparr>col_name = ''note'', col_type = TEXT, col_not_null = False, col_key = False\<rparr>]"

record table =
  columns :: "column_def list"
  rows :: "expense list"
  seq :: int

text \<open>The database file; \<open>None\<close> when the \<open>expenses\<close> table does not exist.\<close>

record db =
  expenses :: "table option"

definition empty_table :: table where
  "empty_table = \<lparr>columns = expenses_columns, rows = [], seq = 0\<rparr>"

definition empty_db :: db where
  "empty_db = \<lparr>expenses = None\<rparr>"

subsection \<open>The table invariant\<close>

text \<open>
  What every table this program builds satisfies: rowids strictly increasing in
  scan order (hence unique), positive, never above the sequence entry, and the
  sequence entry within the 64-bit rowid range.
\<close>

definition table_inv :: "table \<Rightarrow> bool" where
  "table_inv t \<longleftrightarrow>
     sorted_wrt (<) (map rowid (rows t)) \<and>
     list_all (\<lambda>r. 0 < rowid r \<and> rowid r \<le> seq t) (rows t) \<and>
     0 \<le> seq t \<and> seq t \<le> max_rowid"

definition db_inv :: "db \<Rightarrow> bool" where
  "db_inv d \<longleftrightarrow> (case expenses d of None \<Rightarrow> True | Some t \<Rightarrow> table_inv t)"

subsection \<open>Connections\<close>

record conn =
  committed :: db
  pending :: "db option"

text \<open>\<open>sqlite3.connect\<close> / \<open>aiosqlite.connect\<close>: opening may fail.\<close>

definition connect :: "faults \<Rightarrow> db \<Rightarrow> storage_error + conn" where
  "connect f d =
     (case connect_fault f of
        Some e \<Rightarrow> Inl e
      | None \<Rightarrow> Inr \<lparr>committed = d, pending = None\<rparr>)"

text \<open>The state a statement on the connection reads and writes.\<close>

definition current :: "conn \<Rightarrow> db" where
  "current c = (case pending c of None \<Rightarrow> committed c | Some d \<Rightarrow> d)"

text \<open>\<open>commit()\<close>: a no-op without an open transaction; otherwise it may fail (the
  write lock is held by another connection) and leaves the transaction open.\<close>

definition commit :: "faults \<Rightarrow> conn \<Rightarrow> storage_error + conn" where
  "commit f c =
     (case pending c of
        None \<Rightarrow> Inr c
      | Some d \<Rightarrow>
          (case commit_fault f of
             Some e \<Rightarrow> Inl e
           | None \<Rightarrow> Inr \<lparr>committed = d, pending = None\<rparr>))"

text \<open>\<open>close()\<close>, run on every exit of an \<open>async with\<close> block: an open transaction
  is rolled back, so the file keeps the committed state.\<close>

definition close_conn :: "conn \<Rightarrow> db" where
  "close_conn c = committed c"

subsection \<open>Schema initializer\<close>

text \<open>\<open>CREATE TABLE IF NOT EXISTS\<close>: creates the empty table when it is absent and
  leaves an existing table, whatever its columns, untouched.\<close>

definition create_table_if_not_exists :: "db \<Rightarrow> db" where
  "create_table_if_not_exists d =
     (case expenses d of
        None \<Rightarrow> d\<lparr>expenses := Some empty_table\<rparr>
      | Some t \<Rightarrow> d)"

text \<open>
  \<open>init_db\<close>: connect, execute the \<open>CREATE TABLE\<close>, commit.  The \<open>sqlite3\<close>
  module opens an implicit transaction only before \<open>INSERT\<close>, \<open>UPDATE\<close>,
  \<open>DELETE\<close> and \<open>REPLACE\<close>, so the DDL statement runs in autocommit mode: it is
  durable as soon as it executes and \<open>conn.commit()\<close> has nothing to commit.  A
  failure propagates out of the \<open>with\<close> block (which does not close the
  connection) and aborts the import of the module.
\<close>

definition init_db :: "faults \<Rightarrow> db \<Rightarrow> storage_error + db" where
  "init_db f d =
     (case connect f d of
        Inl e \<Rightarrow> Inl e
      | Inr c \<Rightarrow>
          (case execute_fault f of
             Some e \<Rightarrow> Inl e
           | None \<Rightarrow> Inr (create_table_if_not_exists (committed c))))"

subsection \<open>Facts about tables, connections and the initializer\<close>

declare empty_table_def [model_defs] empty_db_def [model_defs]

lemma table_inv_empty [simp]: "table_inv empty_table"
  by (simp add: table_inv_def empty_table_def max_rowid_def)

lemma db_inv_empty [simp]: "db_inv empty_db"
  by (simp add: db_inv_def empty_db_def)

lemma table_inv_distinct: "table_inv t \<Longrightarrow> distinct (map rowid (rows t))"
  by (simp add: table_inv_def strict_sorted_iff)

lemma connect_Inr: "connect f d = Inr c \<Longrightarrow> c = \<lparr>committed = d, pending = None\<rparr>"
  by (simp add: connect_def split: option.splits)

lemma connect_no_faults [simp]:
  "connect no_faults d = Inr \<lparr>committed = d, pending = None\<rparr>"
  by (simp add: connect_def)

lemma current_fresh [simp]: "current \<lparr>committed = d, pending = None\<rparr> = d"
  by (simp add: current_def)

lemma close_fresh [simp]: "close_conn \<lparr>committed = d, pending = None\<rparr> = d"
  by (simp add: close_conn_def)

lemma commit_Inr:
  "commit f c = Inr c' \<Longrightarrow> committed c' = current c \<and> pending c' = None \<or> c' = c \<and> pending c = None"
  by (auto simp: commit_def current_def split: option.splits)

lemma init_db_Inr:
  "init_db f d = Inr d' \<Longrightarrow> d' = create_table_if_not_exists d"
  by (auto simp: init_db_def dest: connect_Inr split: sum.splits option.splits)

lemma create_table_exists: "\<exists>t. expenses (create_table_if_not_exists d) = Some t"
  by (simp add: create_table_if_not_exists_def split: option.split)

lemma create_table_idem:
  "create_table_if_not_exists (create_table_if_not_exists d) = create_table_if_not_exists d"
  by (simp add: create_table_if_not_exists_def split: option.split)

lemma db_inv_create_table: "db_inv d \<Longrightarrow> db_inv (create_table_if_not_exists d)"
  by (auto simp: create_table_if_not_exists_def db_inv_def split: option.splits)


subsection \<open>Properties of the schema initializer\<close>

text \<open>
  C10. When an \<open>expenses\<close> table already exists, \<open>init_db\<close> leaves the database
  unchanged, whatever the existing table's columns: \<open>CREATE TABLE IF NOT
  EXISTS\<close> checks only the name, so a table of another shape is kept silently.
\<close>

theorem init_db_keeps_existing:
  "expenses d = Some t \<Longrightarrow> init_db f d = Inr d' \<Longrightarrow> d' = d"
  by (auto dest: init_db_Inr simp: create_table_if_not_exists_def)

theorem init_db_keeps_existing_witness:
  "\<lparr>expenses = Some (empty_table\<lparr>columns := []\<rparr>)\<rparr> = \<lparr>expenses = Some (empty_table\<lparr>columns := []\<rparr>)\<rparr>"
proof -
  have h: "init_db no_faults \<lparr>expenses = Some (empty_table\<lparr>columns := []\<rparr>)\<rparr> =
           Inr \<lparr>expenses = Some (empty_table\<lparr>columns := []\<rparr>)\<rparr>"
    by (simp add: init_db_def create_table_if_not_exists_def)
  show ?thesis using init_db_keeps_existing [OF _ h] by simp
qed

end
