(* ===== verification/Expense_Store.thy ===== *)
theory Expense_Store
  imports Schema
begin

text \<open>
  The write path: the \<open>add_expense\<close> tool (src/main.py lines 35--51).  It opens a
  connection, executes one parameterised \<open>INSERT\<close> (which opens an implicit
  transaction), commits, leaves the \<open>async with\<close> block (closing the connection)
  and returns \<open>{"status": "success", "id": cur.lastrowid}\<close>.  The SQLite side of
  the \<open>INSERT\<close> is \<open>insert_row\<close>: the rowid comes from \<open>autoinc_rowid\<close> and
  the row is appended in rowid order.  The \<open>NOT NULL\<close> constraints on
  \<open>date\<close>, \<open>amount\<close> and \<open>category\<close> cannot fail: the dispatcher has already
  checked that these arguments are a \<open>str\<close>, a \<open>float\<close> and a \<open>str\<close>.
\<close>

subsection \<open>The INSERT statement\<close>

definition insert_row ::
  "string \<Rightarrow> real \<Rightarrow> string \<Rightarrow> string option \<Rightarrow> string option \<Rightarrow> table \<Rightarrow>
   storage_error + int \<times> table" where
  "insert_row d a c s n t =
     (case autoinc_rowid (seq t) (map rowid (rows t)) of
        Inl e \<Rightarrow> Inl e
      | Inr r \<Rightarrow>
          Inr (r, t\<lparr>rows := rows t @ [\<lparr>rowid = r, date = d, amount = a, category = c,
                                       subcategory = s, note_text = n\<rparr>],
                   seq := r\<rparr>))"

text \<open>\<open>db.execute(INSERT ...)\<close> on a connection: the statement fails as a whole or
  changes the connection's pending state only.\<close>

definition execute_insert ::
  "faults \<Rightarrow> conn \<Rightarrow> string \<Rightarrow> real \<Rightarrow> string \<Rightarrow> string option \<Rightarrow> string option \<Rightarrow>
   storage_error + int \<times> conn" where
  "execute_insert f c d a cat s n =
     (case execute_fault f of
        Some e \<Rightarrow> Inl e
      | None \<Rightarrow>
          (case expenses (current c) of
             None \<Rightarrow> Inl NoSuchTable
           | Some t \<Rightarrow>
               (case insert_row d a cat s n t of
                  Inl e \<Rightarrow> Inl e
                | Inr (r, t') \<Rightarrow>
                    Inr (r, c\<lparr>pending := Some ((current c)\<lparr>expenses := Some t'\<rparr>)\<rparr>))))"

subsection \<open>The tool\<close>

definition add_expense ::
  "faults \<Rightarrow> db \<Rightarrow> string \<Rightarrow> real \<Rightarrow> string \<Rightarrow> string option \<Rightarrow> string option \<Rightarrow>
   (storage_error + py_dict) \<times> db" where
  "add_expense f db d a cat s n =
     (case connect f db of
        Inl e \<Rightarrow> (Inl e, db)
      | Inr c \<Rightarrow>
          (case execute_insert f c d a cat s n of
             Inl e \<Rightarrow> (Inl e, close_conn c)
           | Inr (r, c1) \<Rightarrow>
               (case commit f c1 of
                  Inl e \<Rightarrow> (Inl e, close_conn c1)
                | Inr c2 \<Rightarrow>
                    (Inr [(''status'', Text ''success''), (''id'', Integer r)], close_conn c2))))"

subsection \<open>Lemmas on the INSERT\<close>

lemma insert_row_eq:
  "table_inv t \<Longrightarrow> insert_row d a c s n t =
     (if max_rowid \<le> seq t then Inl Full
      else Inr (seq t + 1,
                t\<lparr>rows := rows t @ [\<lparr>rowid = seq t + 1, date = d, amount = a, category = c,
                                      subcategory = s, note_text = n\<rparr>],
                  seq := seq t + 1\<rparr>))"
  by (simp add: insert_row_def autoinc_rowid_seq table_inv_def list_all_iff)

lemma table_inv_insert_row:
  assumes "table_inv t" and "insert_row d a c s n t = Inr (r, t')"
  shows "table_inv t'"
proof -
  have lt: "seq t < max_rowid" and t': "t' = t\<lparr>rows := rows t @ [\<lparr>rowid = seq t + 1, date = d,
      amount = a, category = c, subcategory = s, note_text = n\<rparr>], seq := seq t + 1\<rparr>"
    using assms by (auto simp add: insert_row_eq split: if_splits)
  have "sorted_wrt (<) (map rowid (rows t) @ [seq t + 1])"
    using assms(1) by (auto simp: table_inv_def sorted_wrt_append list_all_iff)
  then show ?thesis
    using assms(1) lt by (auto simp: t' table_inv_def list_all_iff)
qed

text \<open>The whole tool as one case distinction over the storage outcomes.\<close>

lemma add_expense_eq:
  "add_expense f db d a cat s n =
     (case connect_fault f of
        Some e \<Rightarrow> (Inl e, db)
      | None \<Rightarrow>
          (case execute_fault f of
             Some e \<Rightarrow> (Inl e, db)
           | None \<Rightarrow>
               (case expenses db of
                  None \<Rightarrow> (Inl NoSuchTable, db)
                | Some t \<Rightarrow>
                    (case insert_row d a cat s n t of
                       Inl e \<Rightarrow> (Inl e, db)
                     | Inr (r, t') \<Rightarrow>
                         (case commit_fault f of
                            Some e \<Rightarrow> (Inl e, db)
                          | None \<Rightarrow> (Inr [(''status'', Text ''success''), (''id'', Integer r)],
                                     db\<lparr>expenses := Some t'\<rparr>))))))"
  by (simp add: add_expense_def connect_def execute_insert_def commit_def close_conn_def
           current_def split: option.split sum.split prod.split)

lemma add_expense_inv:
  "db_inv db \<Longrightarrow> db_inv (snd (add_expense f db d a cat s n))"
  by (auto simp: add_expense_eq db_inv_def intro: table_inv_insert_row
           split: option.split sum.split prod.split)

declare add_expense_eq [model_defs] insert_row_def [model_defs]

lemma add_expense_no_faults:
  assumes "expenses db = Some t" and "table_inv t" and "seq t < max_rowid"
  shows "add_expense no_faults db d a c s n =
     (Inr [(''status'', Text ''success''), (''id'', Integer (seq t + 1))],
      db\<lparr>expenses := Some (t\<lparr>rows := rows t @ [\<lparr>rowid = seq t + 1, date = d, amount = a,
          category = c, subcategory = s, note_text = n\<rparr>], seq := seq t + 1\<rparr>)\<rparr>)"
  using assms by (simp add: add_expense_eq insert_row_eq)

subsection \<open>Properties of the tool\<close>

text \<open>
  C1. When \<open>add_expense\<close> returns, whatever the storage did before, it returned
  \<open>{"status": "success", "id": r}\<close> for a rowid \<open>r\<close> larger than every
  rowid in the table, the file holds the old rows followed by exactly one new row
  with that rowid and the caller's values (optional fields as given, \<open>None\<close>
  included), and the sequence entry is \<open>r\<close>.
\<close>

theorem add_expense_Inr:
  assumes "add_expense f db d a c s n = (Inr res, db')"
    and "expenses db = Some t" and "table_inv t"
  shows "\<exists>r. res = [(''status'', Text ''success''), (''id'', Integer r)] \<and>
           (\<forall>x\<in>set (rows t). rowid x < r) \<and>
           expenses db' = Some (t\<lparr>rows := rows t @ [\<lparr>rowid = r, date = d, amount = a,
              category = c, subcategory = s, note_text = n\<rparr>], seq := r\<rparr>)"
proof -
  have "seq t < max_rowid" and "connect_fault f = None" and "execute_fault f = None"
    and "commit_fault f = None"
    using assms by (auto simp: add_expense_eq insert_row_eq split: option.splits if_splits)
  moreover have "\<forall>x\<in>set (rows t). rowid x < seq t + 1"
    using assms(3) by (auto simp: table_inv_def list_all_iff)
  ultimately show ?thesis
    using assms by (auto simp: add_expense_eq insert_row_eq)
qed

text \<open>At a concrete call: the first expense of a fresh table gets rowid 1.\<close>

theorem add_expense_Inr_witness:
  "\<exists>r. [(''status'', Text ''success''), (''id'', Integer 1)] =
        [(''status'', Text ''success''), (''id'', Integer r)] \<and>
      (\<forall>x\<in>set (rows empty_table). rowid x < r) \<and>
      expenses \<lparr>expenses = Some (empty_table\<lparr>rows := [\<lparr>rowid = 1, date = ''2024-01-15'',
          amount = 42.5, category = ''Food'', subcategory = None, note_text = None\<rparr>], seq := 1\<rparr>)\<rparr> =
        Some (empty_table\<lparr>rows := rows empty_table @ [\<lparr>rowid = r, date = ''2024-01-15'',
          amount = 42.5, category = ''Food'', subcategory = None, note_text = None\<rparr>], seq := r\<rparr>)"
proof -
  have "add_expense no_faults \<lparr>expenses = Some empty_table\<rparr> ''2024-01-15'' 42.5 ''Food'' None None =
     (Inr [(''status'', Text ''success''), (''id'', Integer 1)],
      \<lparr>expenses = Some (empty_table\<lparr>rows := [\<lparr>rowid = 1, date = ''2024-01-15'',
          amount = 42.5, category = ''Food'', subcategory = None, note_text = None\<rparr>], seq := 1\<rparr>)\<rparr>)"
    by (simp add: model_defs)
  from add_expense_Inr [OF this] show ?thesis by simp
qed

text \<open>
  C4. A call that raises leaves the database file exactly as it was: a failed
  connection, a failed \<open>INSERT\<close>, an exhausted rowid space or a failed commit
  (whose open transaction \<open>close()\<close> rolls back) create no row.
\<close>

theorem add_expense_Inl_unchanged:
  "add_expense f db d a c s n = (Inl e, db') \<Longrightarrow> db' = db"
  by (auto simp: add_expense_eq split: option.splits sum.splits prod.splits)

theorem add_expense_Inl_unchanged_witness:
  "add_expense \<lparr>connect_fault = None, execute_fault = None, commit_fault = Some Busy\<rparr>
      \<lparr>expenses = Some empty_table\<rparr> ''2024-01-15'' 42.5 ''Food'' None None =
     (Inl Busy, \<lparr>expenses = Some empty_table\<rparr>) \<and>
   \<lparr>expenses = Some empty_table\<rparr> = \<lparr>expenses = Some empty_table\<rparr>"
proof -
  have eq: "add_expense \<lparr>connect_fault = None, execute_fault = None, commit_fault = Some Busy\<rparr>
      \<lparr>expenses = Some empty_table\<rparr> ''2024-01-15'' 42.5 ''Food'' None None =
     (Inl Busy, \<lparr>expenses = Some empty_table\<rparr>)"
    by (simp add: model_defs)
  show ?thesis using eq add_expense_Inl_unchanged [OF eq] by simp
qed

text \<open>
  C11. When the sequence entry has reached the largest 64-bit rowid, the insert fails
  with \<open>SQLITE_FULL\<close> and the table is unchanged, even with every other storage
  action succeeding.
\<close>

theorem add_expense_full:
  "expenses db = Some t \<Longrightarrow> table_inv t \<Longrightarrow> seq t = max_rowid \<Longrightarrow>
   add_expense no_faults db d a c s n = (Inl Full, db)"
  by (simp add: add_expense_eq insert_row_eq)

theorem add_expense_full_witness:
  "expenses \<lparr>expenses = Some (empty_table\<lparr>seq := max_rowid\<rparr>)\<rparr> = Some (empty_table\<lparr>seq := max_rowid\<rparr>) \<and>
   table_inv (empty_table\<lparr>seq := max_rowid\<rparr>) \<and>
   seq (empty_table\<lparr>seq := max_rowid\<rparr>) = max_rowid \<and>
   add_expense no_faults \<lparr>expenses = Some (empty_table\<lparr>seq := max_rowid\<rparr>)\<rparr> ''2024-01-15'' 42.5 ''Food'' None None =
     (Inl Full, \<lparr>expenses = Some (empty_table\<lparr>seq := max_rowid\<rparr>)\<rparr>)"
proof -
  have inv: "table_inv (empty_table\<lparr>seq := max_rowid\<rparr>)"
    by (simp add: table_inv_def empty_table_def max_rowid_def)
  show ?thesis
    using inv add_expense_full [of "\<lparr>expenses = Some (empty_table\<lparr>seq := max_rowid\<rparr>)\<rparr>"
        "empty_table\<lparr>seq := max_rowid\<rparr>"]
    by simp
qed


text \<open>
  C21. Every id \<open>add_expense\<close> returns is the table's sequence entry plus one,
  positive, and fits SQLite's signed 64-bit \<open>INTEGER\<close>: \<open>0 < id < 2^63\<close>.
\<close>

theorem add_expense_id_bounds:
  assumes "expenses db = Some t" and "table_inv t"
    and "add_expense f db d a c s n = (Inr res, db')"
  shows "\<exists>r. res = [(''status'', Text ''success''), (''id'', Integer r)] \<and>
           r = seq t + 1 \<and> 0 < r \<and> r < 2 ^ 63"
proof -
  have "seq t < max_rowid" and "0 \<le> seq t"
    using assms by (auto simp: add_expense_eq insert_row_eq table_inv_def split: option.splits if_splits)
  then show ?thesis
    using assms by (auto simp: add_expense_eq insert_row_eq max_rowid_def split: option.splits if_splits)
qed

theorem add_expense_id_bounds_witness:
  "\<exists>r. [(''status'', Text ''success''), (''id'', Integer 1)] =
        [(''status'', Text ''success''), (''id'', Integer r)] \<and>
      r = seq empty_table + 1 \<and> 0 < r \<and> r < 2 ^ 63"
proof -
  have "add_expense no_faults \<lparr>expenses = Some empty_table\<rparr> ''2024-01-15'' 42.5 ''Food'' None None =
     (Inr [(''status'', Text ''success''), (''id'', Integer 1)],
      \<lparr>expenses = Some (empty_table\<lparr>rows := [\<lparr>rowid = 1, date = ''2024-01-15'',
          amount = 42.5, category = ''Food'', subcategory = None, note_text = None\<rparr>], seq := 1\<rparr>)\<rparr>)"
    by (simp add: model_defs)
  from add_expense_id_bounds [OF _ table_inv_empty this] show ?thesis by simp
qed

end
