(* ===== verification/Query_Builder.thy ===== *)
theory Query_Builder
  imports Runtime
begin

text \<open>
  The query builder: the statement texts and parameter lists that
  \<open>list_expenses\<close> (src/main.py lines 61--68) and \<open>summarize\<close> (lines 81--92)
  hand to \<open>db.execute\<close>.  A text is kept as the list of the Python string
  literals it is concatenated from (\<open>sql_fragment\<close>); \<open>render\<close> gives the text
  itself, whitespace included.  The engine's side, \<open>prepare\<close>, is what SQLite makes
  of the texts this program can send: parsing them and binding the parameters to
  their \<open>?\<close> placeholders, with \<open>ProgrammingError\<close> when the counts differ.
\<close>

subsection \<open>Statement texts\<close>

datatype sql_fragment = ListSelect | SummarySelect | AndCategory | GroupOrder

definition newline :: string where
  "newline = [CHR 0x0A]"

text \<open>A triple-quoted Python literal: each line on its own indented line, and the
  closing quotes indented by \<open>k\<close> spaces.\<close>

definition py_block :: "nat \<Rightarrow> string list \<Rightarrow> nat \<Rightarrow> string" where
  "py_block i ls k =
     concat (map (\<lambda>l. newline @ replicate i CHR '' '' @ l) ls) @ newline @ replicate k CHR '' ''"

fun fragment_text :: "sql_fragment \<Rightarrow> string" where
  "fragment_text ListSelect =
     py_block 12 [''SELECT id, date, amount, category, subcategory, note'',
                  ''FROM expenses'',
                  ''WHERE date BETWEEN ? AND ?'',
                  ''ORDER BY date DESC''] 12"
| "fragment_text SummarySelect =
     py_block 8 [''SELECT category, SUM(amount) AS total_amount, COUNT(*) AS count'',
                 ''FROM expenses'',
                 ''WHERE date BETWEEN ? AND ?''] 4"
| "fragment_text AndCategory = '' AND category = ?''"
| "fragment_text GroupOrder = '' GROUP BY category ORDER BY total_amount DESC''"

definition render :: "sql_fragment list \<Rightarrow> string" where
  "render q = concat (map fragment_text q)"

subsection \<open>The builders\<close>

text \<open>\<open>list_expenses\<close>: one constant text, the two dates as parameters.\<close>

definition list_query :: "string \<Rightarrow> string \<Rightarrow> sql_fragment list \<times> string list" where
  "list_query start_date end_date = ([ListSelect], [start_date, end_date])"

text \<open>\<open>summarize\<close>: \<open>query = ...; params = [start_date, end_date]\<close>; \<open>if category:\<close>
  append the category predicate and the category; then append the grouping.\<close>

definition summarize_query ::
  "string \<Rightarrow> string \<Rightarrow> string option \<Rightarrow> sql_fragment list \<times> string list" where
  "summarize_query start_date end_date category =
     (let query = [SummarySelect];
          params = [start_date, end_date];
          (query, params) =
            (if py_truthy category then (query @ [AndCategory], params @ [the category])
             else (query, params))
      in (query @ [GroupOrder], params))"

subsection \<open>What the engine makes of them\<close>

text \<open>
  Binding checks the number of parameters first; the indices read below are then
  within the list.  The plan of a prepared statement: the rows whose \<open>date\<close> is between the two
  bound dates, in \<open>date\<close> order, or the per-category summary of the rows between
  the two dates, narrowed to one category when the statement has the category
  predicate.
\<close>

datatype select_plan =
    ListPlan string string
  | SummaryPlan string string "string option"

definition prepare :: "sql_fragment list \<Rightarrow> string list \<Rightarrow> storage_error + select_plan" where
  "prepare q ps =
     (if placeholders (render q) \<noteq> length ps then Inl BindingMismatch
      else if q = [ListSelect] then Inr (ListPlan (ps ! 0) (ps ! 1))
      else if q = [SummarySelect, GroupOrder] then Inr (SummaryPlan (ps ! 0) (ps ! 1) None)
      else if q = [SummarySelect, AndCategory, GroupOrder]
      then Inr (SummaryPlan (ps ! 0) (ps ! 1) (Some (ps ! 2)))
      else Inl SqlError)"

subsection \<open>Facts about the texts\<close>

text \<open>Statement texts are reasoned about through their placeholder counts; their
  characters are unfolded only where needed.\<close>

declare fragment_text.simps [simp del]

lemma placeholders_fragment [simp]:
  "placeholders (fragment_text ListSelect) = 2"
  "placeholders (fragment_text SummarySelect) = 2"
  "placeholders (fragment_text AndCategory) = 1"
  "placeholders (fragment_text GroupOrder) = 0"
  by (simp_all add: fragment_text.simps placeholders_def py_block_def newline_def)

lemma placeholders_render [simp]:
  "placeholders (render q) = sum_list (map (\<lambda>f. placeholders (fragment_text f)) q)"
  by (induction q) (simp_all add: render_def placeholders_def)

lemma summarize_query_eq:
  "summarize_query s e c =
     (if py_truthy c then ([SummarySelect, AndCategory, GroupOrder], [s, e, the c])
      else ([SummarySelect, GroupOrder], [s, e]))"
  by (simp add: summarize_query_def)

lemma prepare_list_query:
  "prepare [ListSelect] [s, e] = Inr (ListPlan s e)"
  by (simp add: prepare_def render_def)

lemma prepare_summarize_query:
  "prepare (fst (summarize_query s e c)) (snd (summarize_query s e c)) =
   Inr (SummaryPlan s e (if py_truthy c then c else None))"
  by (cases c) (simp_all add: summarize_query_eq prepare_def render_def)


subsection \<open>Properties of the builders\<close>

text \<open>
  C8. Both builders hand \<open>db.execute\<close> exactly as many parameters as their
  statement text has \<open>?\<close> placeholders, for every argument, so binding never
  raises \<open>ProgrammingError\<close>.
\<close>

theorem query_placeholders_match:
  "placeholders (render (fst (list_query s e))) = length (snd (list_query s e)) \<and>
   placeholders (render (fst (summarize_query s e c))) = length (snd (summarize_query s e c))"
  by (simp add: list_query_def summarize_query_eq)

text \<open>
  C9. No caller value reaches the statement text: the text \<open>summarize\<close> sends
  depends only on whether the category is truthy, never on the dates or on the
  category's characters.
\<close>

theorem summarize_text_independent:
  "py_truthy c = py_truthy c' \<Longrightarrow>
   render (fst (summarize_query s e c)) = render (fst (summarize_query s' e' c'))"
  by (simp add: summarize_query_eq)

theorem summarize_text_independent_witness:
  "render (fst (summarize_query ''2024-01-01'' ''2024-01-31'' (Some ''Food''))) =
   render (fst (summarize_query ''x' OR 1=1 --'' ''y'' (Some ''Travel'')))"
  by (rule summarize_text_independent) simp

end
