(* ===== verification/Queries.thy ===== *)
theory Queries
  imports Schema Query_Builder
begin

text \<open>
  The read path: the tools \<open>list_expenses\<close> (src/main.py lines 54--71) and
  \<open>summarize\<close> (lines 74--97).  Each opens a connection, executes the statement
  the query builder made, reads all result rows (\<open>fetchall\<close>), turns each into a
  dict keyed by the result's column names (\<open>dict(zip(cols, row))\<close>), and closes
  the connection; neither changes the database.  The engine runs a prepared plan
  over the table: a scan in rowid order filtered by \<open>BETWEEN\<close>, then for the
  listing a sort on \<open>date DESC\<close>, for the summary a sort on \<open>category\<close> with
  one aggregate row per run of equal categories (\<open>GROUP BY\<close>), then a sort on
  \<open>total_amount DESC\<close>.  Where SQL leaves the order of equal sort keys open the
  model keeps the scan order; the abstract specifications \<open>list_spec\<close> and
  \<open>summary_spec\<close> leave it open as SQL does.
\<close>

subsection \<open>Row selection\<close>

definition range_rows :: "string \<Rightarrow> string \<Rightarrow> expense list \<Rightarrow> expense list" where
  "range_rows lo hi xs = filter (\<lambda>r. sql_between (date r) lo hi) xs"

definition category_rows :: "string option \<Rightarrow> expense list \<Rightarrow> expense list" where
  "category_rows c xs =
     (case c of None \<Rightarrow> xs | Some cat \<Rightarrow> filter (\<lambda>r. category r = cat) xs)"

subsection \<open>Aggregation\<close>

record summary_row =
  grp_category :: string
  total_amount :: real
  row_count :: int

text \<open>The aggregate of one category over a list of rows: \<open>SUM(amount)\<close>, \<open>COUNT(*)\<close>.\<close>

definition summary_of :: "expense list \<Rightarrow> string \<Rightarrow> summary_row" where
  "summary_of xs c =
     \<lparr>grp_category = c,
      total_amount = sum_list (map amount (filter (\<lambda>r. category r = c) xs)),
      row_count = int (length (filter (\<lambda>r. category r = c) xs))\<rparr>"

definition start_group :: "expense \<Rightarrow> summary_row" where
  "start_group r = \<lparr>grp_category = category r, total_amount = amount r, row_count = 1\<rparr>"

definition add_to_group :: "summary_row \<Rightarrow> expense \<Rightarrow> summary_row" where
  "add_to_group g r = g\<lparr>total_amount := total_amount g + amount r, row_count := row_count g + 1\<rparr>"

text \<open>The aggregation loop over rows sorted on the grouping key: extend the current
  group while the key is the same, emit it when the key changes or the rows end.\<close>

fun group_scan :: "summary_row \<Rightarrow> expense list \<Rightarrow> summary_row list" where
  "group_scan g [] = [g]"
| "group_scan g (r # rs) =
     (if category r = grp_category g then group_scan (add_to_group g r) rs
      else g # group_scan (start_group r) rs)"

definition group_by_category :: "expense list \<Rightarrow> summary_row list" where
  "group_by_category xs =
     (case sort_key category xs of
        [] \<Rightarrow> []
      | r # rs \<Rightarrow> group_scan (start_group r) rs)"

subsection \<open>Plans and result sets\<close>

datatype result_set = ExpenseRows "expense list" | SummaryRows "summary_row list"

fun run_plan :: "select_plan \<Rightarrow> table \<Rightarrow> result_set" where
  "run_plan (ListPlan lo hi) t = ExpenseRows (sort_desc date (range_rows lo hi (rows t)))"
| "run_plan (SummaryPlan lo hi c) t =
     SummaryRows (sort_desc total_amount
                    (group_by_category (category_rows c (range_rows lo hi (rows t)))))"

text \<open>The column names of \<open>cur.description\<close> and the tuples of \<open>fetchall()\<close>.\<close>

fun result_columns :: "select_plan \<Rightarrow> string list" where
  "result_columns (ListPlan lo hi) =
     [''id'', ''date'', ''amount'', ''category'', ''subcategory'', ''note'']"
| "result_columns (SummaryPlan lo hi c) = [''category'', ''total_amount'', ''count'']"

fun text_or_null :: "string option \<Rightarrow> sql_value" where
  "text_or_null None = Null"
| "text_or_null (Some s) = Text s"

definition expense_tuple :: "expense \<Rightarrow> sql_value list" where
  "expense_tuple r =
     [Integer (rowid r), Text (date r), Real (amount r), Text (category r),
      text_or_null (subcategory r), text_or_null (note_text r)]"

definition summary_tuple :: "summary_row \<Rightarrow> sql_value list" where
  "summary_tuple g = [Text (grp_category g), Real (total_amount g), Integer (row_count g)]"

fun result_tuples :: "result_set \<Rightarrow> sql_value list list" where
  "result_tuples (ExpenseRows xs) = map expense_tuple xs"
| "result_tuples (SummaryRows gs) = map summary_tuple gs"

subsection \<open>The tools\<close>

text \<open>
  (The \<open>category\<close> argument of \<open>summarize\<close> is named \<open>cat\<close> here:
  \<open>category\<close> is the field of a row.)
  One read: connect, \<open>db.execute(query, params)\<close> (the engine reports a missing
  table before it binds the parameters), \<open>fetchall()\<close>, one dict per row; the
  \<open>async with\<close> block closes the connection on every exit.
\<close>

definition run_select ::
  "faults \<Rightarrow> db \<Rightarrow> sql_fragment list \<Rightarrow> string list \<Rightarrow> storage_error + py_dict list" where
  "run_select f db q ps =
     (case connect f db of
        Inl e \<Rightarrow> Inl e
      | Inr c \<Rightarrow>
          (case execute_fault f of
             Some e \<Rightarrow> Inl e
           | None \<Rightarrow>
               (case expenses (current c) of
                  None \<Rightarrow> Inl NoSuchTable
                | Some t \<Rightarrow>
                    (case prepare q ps of
                       Inl e \<Rightarrow> Inl e
                     | Inr p \<Rightarrow>
                         Inr (map (\<lambda>row. zip (result_columns p) row)
                                (result_tuples (run_plan p t)))))))"

definition list_expenses :: "faults \<Rightarrow> db \<Rightarrow> string \<Rightarrow> string \<Rightarrow> storage_error + py_dict list" where
  "list_expenses f db start_date end_date =
     (let (query, params) = list_query start_date end_date in run_select f db query params)"

definition summarize ::
  "faults \<Rightarrow> db \<Rightarrow> string \<Rightarrow> string \<Rightarrow> string option \<Rightarrow> storage_error + py_dict list" where
  "summarize f db start_date end_date cat =
     (let (query, params) = summarize_query start_date end_date cat
      in run_select f db query params)"

subsection \<open>Specifications\<close>

text \<open>
  What the spec promises of a listing: exactly the rows whose date lies in the closed
  interval, each once, in non-increasing date order; rows of equal date in any order.
\<close>

definition list_spec :: "string \<Rightarrow> string \<Rightarrow> expense list \<Rightarrow> expense list \<Rightarrow> bool" where
  "list_spec lo hi xs ys \<longleftrightarrow>
     mset ys = mset (filter (\<lambda>r. lo \<le> date r \<and> date r \<le> hi) xs) \<and> sorted_desc date ys"

text \<open>
  What the spec promises of a summary of a list of rows: one entry per category
  that occurs, holding that category's sum and count, in non-increasing total
  order; entries of equal total in any order.
\<close>

definition summary_spec :: "expense list \<Rightarrow> summary_row list \<Rightarrow> bool" where
  "summary_spec xs gs \<longleftrightarrow>
     distinct (map grp_category gs) \<and> set (map grp_category gs) = set (map category xs) \<and>
     list_all (\<lambda>g. g = summary_of xs (grp_category g)) gs \<and> sorted_desc total_amount gs"

text \<open>The reference grouping: the categories in ascending order, each with its
  aggregate.\<close>

definition group_by_ref :: "expense list \<Rightarrow> summary_row list" where
  "group_by_ref xs = map (summary_of xs) (sorted_list_of_set (set (map category xs)))"

text \<open>The dicts the two tools return for one result row.\<close>

definition expense_dict :: "expense \<Rightarrow> py_dict" where
  "expense_dict r =
     [(''id'', Integer (rowid r)), (''date'', Text (date r)), (''amount'', Real (amount r)),
      (''category'', Text (category r)), (''subcategory'', text_or_null (subcategory r)),
      (''note'', text_or_null (note_text r))]"

definition summary_dict :: "summary_row \<Rightarrow> py_dict" where
  "summary_dict g =
     [(''category'', Text (grp_category g)), (''total_amount'', Real (total_amount g)),
      (''count'', Integer (row_count g))]"

subsection \<open>Example data\<close>

text \<open>The rows of the spec's examples (section 8): three in January 2024, one in
  February; in January, Food totals 30 over two rows and Travel 5 over one.\<close>

definition ex_table :: table where
  "ex_table =
     \<lparr>columns = expenses_columns,
      rows = [\<lparr>rowid = 1, date = ''2024-01-01'', amount = 10, category = ''Food'',
                subcategory = None, note_text = None\<rparr>,
              \<lparr>rowid = 2, date = ''2024-01-15'', amount = 20, category = ''Food'',
                subcategory = Some ''Groceries'', note_text = None\<rparr>,
              \<lparr>rowid = 3, date = ''2024-01-20'', amount = 5, category = ''Travel'',
                subcategory = None, note_text = Some ''bus''\<rparr>,
              \<lparr>rowid = 4, date = ''2024-02-01'', amount = 7, category = ''Food'',
                subcategory = None, note_text = None\<rparr>],
      seq = 4\<rparr>"

subsection \<open>Aggregation lemmas\<close>

lemma summary_of_mset:
  assumes "mset xs = mset ys"
  shows "summary_of xs c = summary_of ys c"
  using sum_list_filter_mset [OF assms, of amount] length_filter_mset [OF assms]
  by (simp add: summary_of_def)

lemma summary_of_append_left:
  "\<forall>x\<in>set xs. category x \<noteq> c \<Longrightarrow> summary_of (xs @ ys) c = summary_of ys c"
  by (simp add: summary_of_def filter_empty_conv)

lemma summary_of_append_right:
  "\<forall>y\<in>set ys. category y \<noteq> c \<Longrightarrow> summary_of (xs @ ys) c = summary_of xs c"
  by (simp add: summary_of_def filter_empty_conv)

lemma add_to_group_summary:
  "category x = c \<Longrightarrow> add_to_group (summary_of p c) x = summary_of (p @ [x]) c"
  by (simp add: add_to_group_def summary_of_def)

lemma start_group_summary: "start_group x = summary_of [x] (category x)"
  by (simp add: start_group_def summary_of_def)

lemma grp_category_summary_of [simp]: "grp_category (summary_of xs c) = c"
  by (simp add: summary_of_def)

text \<open>The loop invariant of \<open>group_scan\<close>: the current group aggregates a prefix
  of rows of its category, and the rest of the input is sorted and not smaller.\<close>

lemma group_scan_summary:
  "set (map category p) \<subseteq> {c} \<Longrightarrow> sorted (c # map category rs) \<Longrightarrow>
   group_scan (summary_of p c) rs = map (summary_of (p @ rs)) (remdups_adj (c # map category rs))"
proof (induction rs arbitrary: p c)
  case Nil
  then show ?case by simp
next
  case (Cons x xs)
  have srt: "sorted (category x # map category xs)"
    using Cons.prems(2) by simp
  show ?case
  proof (cases "category x = c")
    case True
    have "set (map category (p @ [x])) \<subseteq> {c}" and "sorted (c # map category xs)"
      using Cons.prems(1) srt True by auto
    then have "group_scan (summary_of (p @ [x]) c) xs =
               map (summary_of ((p @ [x]) @ xs)) (remdups_adj (c # map category xs))"
      by (rule Cons.IH)
    then show ?thesis
      using True by (simp add: add_to_group_summary)
  next
    case False
    have cx: "c < category x"
      using Cons.prems(2) False by (simp add: order.strict_iff_order)
    have gt: "\<forall>y\<in>set (x # xs). category y \<noteq> c"
    proof
      fix y assume "y \<in> set (x # xs)"
      then have "category x \<le> category y" using srt by auto
      then show "category y \<noteq> c" using cx by auto
    qed
    have p: "\<forall>y\<in>set p. category y \<noteq> d" if "d \<noteq> c" for d
      using Cons.prems(1) that by auto
    have "set (map category [x]) \<subseteq> {category x}" by simp
    then have tail: "group_scan (summary_of [x] (category x)) xs =
          map (summary_of ([x] @ xs)) (remdups_adj (category x # map category xs))"
      using srt by (rule Cons.IH)
    have "map (summary_of ([x] @ xs)) (remdups_adj (category x # map category xs)) =
          map (summary_of (p @ x # xs)) (remdups_adj (category x # map category xs))"
    proof (rule map_cong [OF refl])
      fix d assume "d \<in> set (remdups_adj (category x # map category xs))"
      then have "d \<noteq> c" using gt by auto
      then have "\<forall>y\<in>set p. category y \<noteq> d" by (rule p)
      then show "summary_of ([x] @ xs) d = summary_of (p @ x # xs) d"
        by (simp add: summary_of_append_left)
    qed
    moreover have "summary_of p c = summary_of (p @ x # xs) c"
      using gt by (simp add: summary_of_append_right)
    ultimately show ?thesis
      using False tail by (simp add: start_group_summary eq_commute [of c])
  qed
qed

lemma map_sort_key: "map f (sort_key f xs) = sort (map f xs)"
proof -
  have "mset (map f (sort_key f xs)) = mset (map f xs)"
    by (simp add: mset_map)
  moreover have "sorted (map f (sort_key f xs))"
    by (rule sorted_sort_key)
  ultimately show ?thesis
    by (rule properties_for_sort [symmetric])
qed

lemma sorted_distinct_remdups_adj: "sorted xs \<Longrightarrow> distinct (remdups_adj xs)"
  by (induction xs rule: induct_list012) auto

lemma remdups_adj_sort: "remdups_adj (sort xs) = sorted_list_of_set (set xs)"
proof -
  have "sorted (remdups_adj (sort xs))" and "distinct (remdups_adj (sort xs))"
    by (simp_all add: sorted_distinct_remdups_adj)
  then have "sorted_list_of_set (set (remdups_adj (sort xs))) = remdups_adj (sort xs)"
    by (rule sorted_list_of_set.idem_if_sorted_distinct)
  then show ?thesis by simp
qed

text \<open>The GROUP BY loop computes the reference grouping.\<close>

lemma group_by_category_ref: "group_by_category xs = group_by_ref xs"
proof (cases "sort_key category xs")
  case Nil
  then have "length (sort_key category xs) = 0" by simp
  then have "xs = []" by simp
  then show ?thesis by (simp add: group_by_category_def group_by_ref_def)
next
  case (Cons r rs)
  have srt: "sorted (category r # map category rs)"
    using sorted_sort_key [of category xs] Cons by simp
  have cats: "category r # map category rs = sort (map category xs)"
    using map_sort_key [of category xs] Cons by simp
  have "group_by_category xs = group_scan (summary_of [r] (category r)) rs"
    using Cons by (simp add: group_by_category_def start_group_summary)
  also have "\<dots> = map (summary_of ([r] @ rs)) (remdups_adj (category r # map category rs))"
    using srt by (intro group_scan_summary) auto
  also have "\<dots> = map (summary_of (sort_key category xs)) (sorted_list_of_set (set (map category xs)))"
    using Cons cats by (simp add: remdups_adj_sort)
  also have "\<dots> = group_by_ref xs"
    unfolding group_by_ref_def by (rule map_cong [OF refl], rule summary_of_mset) simp
  finally show ?thesis .
qed

lemma summary_spec_sort_desc:
  "summary_spec xs (sort_desc total_amount (group_by_ref xs))"
proof -
  let ?G = "group_by_ref xs"
  have cats: "map grp_category ?G = sorted_list_of_set (set (map category xs))"
    by (simp add: group_by_ref_def comp_def)
  have "mset (map grp_category (sort_desc total_amount ?G)) = mset (map grp_category ?G)"
    by (simp add: mset_map)
  then have "distinct (map grp_category (sort_desc total_amount ?G))"
    using cats by (simp add: mset_eq_imp_distinct_iff)
  moreover have "set (map grp_category (sort_desc total_amount ?G)) = set (map category xs)"
  proof -
    have "set (map grp_category (sort_desc total_amount ?G)) = set (map grp_category ?G)"
      by simp
    also have "\<dots> = set (map category xs)"
      by (simp only: cats) simp
    finally show ?thesis .
  qed
  moreover have "list_all (\<lambda>g. g = summary_of xs (grp_category g)) (sort_desc total_amount ?G)"
    by (auto simp: list_all_iff group_by_ref_def)
  ultimately show ?thesis
    by (simp add: summary_spec_def sorted_desc_sort_desc)
qed

lemma list_spec_sort_desc:
  "list_spec lo hi xs (sort_desc date (range_rows lo hi xs))"
  by (simp add: list_spec_def range_rows_def sorted_desc_sort_desc)

lemma summary_scope:
  "category_rows (if py_truthy c then c else None) (range_rows s e xs) =
   filter (\<lambda>r. s \<le> date r \<and> date r \<le> e \<and> (py_truthy c \<longrightarrow> c = Some (category r))) xs"
  by (cases c) (auto simp: category_rows_def range_rows_def filter_filter intro!: filter_cong)

subsection \<open>The tools, flattened\<close>

lemma zip_expense_tuple [simp]:
  "zip [''id'', ''date'', ''amount'', ''category'', ''subcategory'', ''note''] (expense_tuple r) =
   expense_dict r"
  by (simp add: expense_tuple_def expense_dict_def)

lemma zip_summary_tuple [simp]:
  "zip [''category'', ''total_amount'', ''count''] (summary_tuple g) = summary_dict g"
  by (simp add: summary_tuple_def summary_dict_def)

lemma list_expenses_eq:
  "list_expenses f db s e =
     (case connect_fault f of
        Some x \<Rightarrow> Inl x
      | None \<Rightarrow>
          (case execute_fault f of
             Some x \<Rightarrow> Inl x
           | None \<Rightarrow>
               (case expenses db of
                  None \<Rightarrow> Inl NoSuchTable
                | Some t \<Rightarrow> Inr (map expense_dict (sort_desc date (range_rows s e (rows t)))))))"
  by (simp add: list_expenses_def list_query_def run_select_def connect_def comp_def prepare_list_query
           split: option.split)

lemma summarize_eq:
  "summarize f db s e c =
     (case connect_fault f of
        Some x \<Rightarrow> Inl x
      | None \<Rightarrow>
          (case execute_fault f of
             Some x \<Rightarrow> Inl x
           | None \<Rightarrow>
               (case expenses db of
                  None \<Rightarrow> Inl NoSuchTable
                | Some t \<Rightarrow>
                    Inr (map summary_dict (sort_desc total_amount (group_by_category
                      (category_rows (if py_truthy c then c else None) (range_rows s e (rows t)))))))))"
proof -
  obtain q ps where qp: "summarize_query s e c = (q, ps)" by fastforce
  have "prepare q ps = Inr (SummaryPlan s e (if py_truthy c then c else None))"
    using prepare_summarize_query [of s e c] qp by simp
  then show ?thesis
    by (simp add: summarize_def qp run_select_def connect_def comp_def split: option.split)
qed

lemma group_by_category_Nil [simp]: "group_by_category [] = []"
  by (simp add: group_by_category_def)

lemma summary_spec_mset:
  assumes "summary_spec xs gs1" and "summary_spec xs gs2"
  shows "mset gs1 = mset gs2"
proof -
  have sub: "set ga \<subseteq> set gb" if "summary_spec xs ga" and "summary_spec xs gb" for ga gb
  proof
    fix g assume g: "g \<in> set ga"
    then have "grp_category g \<in> set (map grp_category gb)"
      using that by (auto simp: summary_spec_def)
    then obtain g' where g': "g' \<in> set gb" and c: "grp_category g' = grp_category g" by auto
    have "g = summary_of xs (grp_category g)" and "g' = summary_of xs (grp_category g')"
      using that g g' by (auto simp: summary_spec_def list_all_iff)
    then show "g \<in> set gb" using g' c by simp
  qed
  have "distinct gs1" and "distinct gs2"
    using assms by (auto simp: summary_spec_def distinct_map)
  moreover have "set gs1 = set gs2"
    using sub assms by blast
  ultimately show ?thesis
    by (simp add: set_eq_iff_mset_eq_distinct)
qed

subsection \<open>Properties of the read path\<close>

text \<open>
  C2. Whatever the storage does, when \<open>list_expenses(start_date, end_date)\<close>
  returns, its result is one dict \<open>{id, date, amount, category, subcategory,
  note}\<close> per row of a list that holds exactly the stored rows whose date lies
  in the closed interval (compared as SQLite compares text), each once, in
  non-increasing date order.
\<close>

theorem list_expenses_correct:
  assumes "list_expenses f db s e = Inr res" and "expenses db = Some t"
  shows "\<exists>ys. res = map expense_dict ys \<and> list_spec s e (rows t) ys"
  using assms list_spec_sort_desc [of s e "rows t"]
  by (auto simp: list_expenses_eq split: option.splits)

theorem list_expenses_correct_witness:
  "\<exists>ys. map expense_dict [rows ex_table ! 2, rows ex_table ! 1, rows ex_table ! 0] =
        map expense_dict ys \<and>
        list_spec ''2024-01-01'' ''2024-01-31'' (rows ex_table) ys"
proof -
  have h: "list_expenses no_faults \<lparr>expenses = Some ex_table\<rparr> ''2024-01-01'' ''2024-01-31'' =
      Inr (map expense_dict [rows ex_table ! 2, rows ex_table ! 1, rows ex_table ! 0])"
    by (simp add: list_expenses_eq ex_table_def range_rows_def)
  show ?thesis
    using list_expenses_correct [OF h] by simp
qed

text \<open>
  C3. Whatever the storage does, when \<open>summarize(start_date, end_date, category)\<close>
  returns, its result is one dict \<open>{category, total_amount, count}\<close> per entry of
  a list with one entry per category among the rows in the closed date interval,
  narrowed to the given category when the argument is a non-empty string, each
  entry holding that category's sum of amounts and row count, in non-increasing
  total order.
\<close>

theorem summarize_correct:
  assumes "summarize f db s e c = Inr res" and "expenses db = Some t"
  shows "\<exists>gs. res = map summary_dict gs \<and>
           summary_spec (filter (\<lambda>r. s \<le> date r \<and> date r \<le> e \<and>
                                   (py_truthy c \<longrightarrow> c = Some (category r))) (rows t)) gs"
  using assms summary_spec_sort_desc
  by (auto simp: summarize_eq group_by_category_ref summary_scope split: option.splits)

theorem summarize_correct_witness:
  "\<exists>gs. [summary_dict \<lparr>grp_category = ''Food'', total_amount = 30, row_count = 2\<rparr>,
         summary_dict \<lparr>grp_category = ''Travel'', total_amount = 5, row_count = 1\<rparr>] =
        map summary_dict gs \<and>
        summary_spec (filter (\<lambda>r. ''2024-01-01'' \<le> date r \<and> date r \<le> ''2024-01-31'' \<and>
                                 (py_truthy None \<longrightarrow> None = Some (category r))) (rows ex_table)) gs"
proof -
  have h: "summarize no_faults \<lparr>expenses = Some ex_table\<rparr> ''2024-01-01'' ''2024-01-31'' None =
      Inr [summary_dict \<lparr>grp_category = ''Food'', total_amount = 30, row_count = 2\<rparr>,
           summary_dict \<lparr>grp_category = ''Travel'', total_amount = 5, row_count = 1\<rparr>]"
    by (simp add: summarize_eq group_by_category_def ex_table_def range_rows_def category_rows_def
             start_group_def add_to_group_def)
  show ?thesis
    using summarize_correct [OF h] by simp
qed


text \<open>
  C7. \<open>summarize\<close> treats a category argument that is the empty string exactly
  as an absent one: \<open>if category:\<close> is false for \<open>""\<close>, so the result covers
  every category, although rows with category \<open>""\<close> can be stored.
\<close>

theorem summarize_empty_category:
  "summarize f db s e (Some '''') = summarize f db s e None"
  by (simp add: summarize_eq)

text \<open>
  C12. The listing is determined up to the order of rows of equal date: every list
  that meets \<open>list_spec\<close> holds the same rows, and the same date sequence, as
  the plan SQLite runs for \<open>list_expenses\<close> (the range filter, then the stable
  \<open>ORDER BY date DESC\<close>).
\<close>

theorem list_spec_unique:
  assumes "list_spec lo hi xs ys"
  shows "mset ys = mset (sort_desc date (range_rows lo hi xs)) \<and>
         map date ys = map date (sort_desc date (range_rows lo hi xs))"
proof -
  have m: "mset ys = mset (sort_desc date (range_rows lo hi xs))"
    using assms list_spec_sort_desc [of lo hi xs] by (simp add: list_spec_def)
  have "map date ys = map date (sort_desc date (range_rows lo hi xs))"
    using assms list_spec_sort_desc [of lo hi xs] m
    by (intro sorted_desc_same_keys) (simp_all add: list_spec_def)
  with m show ?thesis by simp
qed

theorem list_spec_unique_witness:
  "mset [rows ex_table ! 1, rows ex_table ! 0] =
     mset (sort_desc date (range_rows ''2024-01-01'' ''2024-01-15'' (rows ex_table))) \<and>
   map date [rows ex_table ! 1, rows ex_table ! 0] =
     map date (sort_desc date (range_rows ''2024-01-01'' ''2024-01-15'' (rows ex_table)))"
proof -
  have h: "list_spec ''2024-01-01'' ''2024-01-15'' (rows ex_table) [rows ex_table ! 1, rows ex_table ! 0]"
    by (simp add: list_spec_def ex_table_def)
  show ?thesis using list_spec_unique [OF h] .
qed

text \<open>
  C13. The summary is determined up to the order of entries of equal total: every
  list that meets \<open>summary_spec\<close> holds the same entries, and the same sequence
  of totals, as the sort-then-scan \<open>GROUP BY\<close> followed by the stable
  \<open>ORDER BY total_amount DESC\<close>.
\<close>

theorem summary_spec_unique:
  assumes "summary_spec xs gs"
  shows "mset gs = mset (sort_desc total_amount (group_by_category xs)) \<and>
         map total_amount gs = map total_amount (sort_desc total_amount (group_by_category xs))"
proof -
  have r: "summary_spec xs (sort_desc total_amount (group_by_category xs))"
    by (simp add: group_by_category_ref summary_spec_sort_desc)
  have m: "mset gs = mset (sort_desc total_amount (group_by_category xs))"
    using assms r by (rule summary_spec_mset)
  have "map total_amount gs = map total_amount (sort_desc total_amount (group_by_category xs))"
    using assms r m by (intro sorted_desc_same_keys) (simp_all add: summary_spec_def)
  with m show ?thesis by simp
qed

theorem summary_spec_unique_witness:
  "mset [\<lparr>grp_category = ''Food'', total_amount = 30, row_count = 2\<rparr>,
         \<lparr>grp_category = ''Travel'', total_amount = 5, row_count = 1\<rparr>] =
     mset (sort_desc total_amount (group_by_category (take 3 (rows ex_table)))) \<and>
   map total_amount [\<lparr>grp_category = ''Food'', total_amount = 30, row_count = 2\<rparr>,
         \<lparr>grp_category = ''Travel'', total_amount = 5, row_count = 1\<rparr>] =
     map total_amount (sort_desc total_amount (group_by_category (take 3 (rows ex_table))))"
proof -
  have h: "summary_spec (take 3 (rows ex_table))
     [\<lparr>grp_category = ''Food'', total_amount = 30, row_count = 2\<rparr>,
      \<lparr>grp_category = ''Travel'', total_amount = 5, row_count = 1\<rparr>]"
    by (simp add: summary_spec_def summary_of_def ex_table_def)
  show ?thesis using summary_spec_unique [OF h] .
qed

text \<open>
  C14. A range that holds no row gives an empty listing and an empty summary, not an
  error, when the storage succeeds.
\<close>

theorem empty_range_empty_results:
  assumes "expenses db = Some t" and "\<forall>r\<in>set (rows t). \<not> (s \<le> date r \<and> date r \<le> e)"
  shows "list_expenses no_faults db s e = Inr [] \<and> summarize no_faults db s e c = Inr []"
proof -
  have "range_rows s e (rows t) = []"
    using assms(2) by (simp add: range_rows_def filter_empty_conv)
  then show ?thesis
    using assms(1) by (simp add: list_expenses_eq summarize_eq category_rows_def split: option.split)
qed

theorem empty_range_empty_results_witness:
  "list_expenses no_faults \<lparr>expenses = Some ex_table\<rparr> ''2023-01-01'' ''2023-12-31'' = Inr [] \<and>
   summarize no_faults \<lparr>expenses = Some ex_table\<rparr> ''2023-01-01'' ''2023-12-31'' None = Inr []"
proof -
  have "\<forall>r\<in>set (rows ex_table). \<not> (''2023-01-01'' \<le> date r \<and> date r \<le> ''2023-12-31'')"
    by (simp add: ex_table_def)
  then show ?thesis
    using empty_range_empty_results [of "\<lparr>expenses = Some ex_table\<rparr>" ex_table] by simp
qed

end
