(* ===== verification/Sessions.thy ===== *)
theory Sessions
  imports Expense_Store Queries
begin

text \<open>
  The server as a whole: the module runs \<open>init_db()\<close> once at import (src/main.py
  line 30) and then serves (\<open>mcp.run\<close>, lines 120--121); the dispatcher maps each
  request to one of the three tools.  SQLite serialises writers: each tool call is
  one unit of work on its own connection, so a run of concurrent calls is, as far
  as the file is concerned, a sequence of whole calls in some order, each with the
  storage outcomes it met (\<open>faults\<close>).  The theory defines that sequence
  (\<open>run_calls\<close>), the states a server can reach (\<open>reachable\<close>), and proves the
  store invariant over all of them, and that the file is the log of the inserts the
  replies report as successful.
\<close>

subsection \<open>Tool calls\<close>

datatype tool_call =
    AddExpense string real string "string option" "string option"
  | ListExpenses string string
  | Summarize string string "string option"

datatype reply = Dict py_dict | Dicts "py_dict list"

text \<open>One request, dispatched to its tool; only \<open>add_expense\<close> writes.\<close>

fun call_tool :: "faults \<Rightarrow> db \<Rightarrow> tool_call \<Rightarrow> (storage_error + reply) \<times> db" where
  "call_tool f db (AddExpense d a c s n) =
     (case add_expense f db d a c s n of (r, db') \<Rightarrow> (map_sum id Dict r, db'))"
| "call_tool f db (ListExpenses s e) = (map_sum id Dicts (list_expenses f db s e), db)"
| "call_tool f db (Summarize s e c) = (map_sum id Dicts (summarize f db s e c), db)"

fun run_calls :: "(faults \<times> tool_call) list \<Rightarrow> db \<Rightarrow> (storage_error + reply) list \<times> db" where
  "run_calls [] db = ([], db)"
| "run_calls ((f, c) # cs) db =
     (case call_tool f db c of
        (r, db1) \<Rightarrow> (case run_calls cs db1 of (rs, db2) \<Rightarrow> (r # rs, db2)))"

text \<open>Start-up: the schema initializer, whose failure aborts the process before
  any request is served, then the requests.\<close>

definition serve ::
  "faults \<Rightarrow> (faults \<times> tool_call) list \<Rightarrow> db \<Rightarrow>
   storage_error + (storage_error + reply) list \<times> db" where
  "serve f0 calls db =
     (case init_db f0 db of
        Inl e \<Rightarrow> Inl e
      | Inr db1 \<Rightarrow> Inr (run_calls calls db1))"

subsection \<open>Reachable states\<close>

text \<open>A fresh database file, then any number of process starts and served calls,
  each with any storage outcome.\<close>

inductive reachable :: "db \<Rightarrow> bool" where
  start: "init_db f empty_db = Inr d \<Longrightarrow> reachable d"
| call: "reachable d \<Longrightarrow> reachable (snd (call_tool f d c))"
| restart: "reachable d \<Longrightarrow> init_db f d = Inr d' \<Longrightarrow> reachable d'"

fun is_add :: "tool_call \<Rightarrow> bool" where
  "is_add (AddExpense d a c s n) = True"
| "is_add _ = False"

text \<open>The rows a sequence of \<open>add_expense\<close> calls appends, numbered from \<open>i + 1\<close>.\<close>

fun added_rows :: "int \<Rightarrow> tool_call list \<Rightarrow> expense list" where
  "added_rows i [] = []"
| "added_rows i (AddExpense d a c s n # cs) =
     \<lparr>rowid = i + 1, date = d, amount = a, category = c, subcategory = s, note_text = n\<rparr> #
     added_rows (i + 1) cs"
| "added_rows i (_ # cs) = added_rows i cs"

text \<open>What the replies report as written: for each \<open>add_expense\<close> call whose reply
  is \<open>{"status": "success", "id": i}\<close>, the row with rowid \<open>i\<close> and the call's values.\<close>

fun dict_id :: "py_dict \<Rightarrow> int option" where
  "dict_id [(k, Text v), (k', Integer i)] =
     (if k = ''status'' \<and> v = ''success'' \<and> k' = ''id'' then Some i else None)"
| "dict_id _ = None"

fun logged_rows :: "tool_call list \<Rightarrow> (storage_error + reply) list \<Rightarrow> expense list" where
  "logged_rows (AddExpense d a c s n # cs) (Inr (Dict p) # rs) =
     (case dict_id p of
        Some i \<Rightarrow> [\<lparr>rowid = i, date = d, amount = a, category = c, subcategory = s, note_text = n\<rparr>]
      | None \<Rightarrow> []) @ logged_rows cs rs"
| "logged_rows (_ # cs) (_ # rs) = logged_rows cs rs"
| "logged_rows _ _ = []"

subsection \<open>One call\<close>

lemma call_tool_reads:
  "\<not> is_add c \<Longrightarrow> snd (call_tool f db c) = db"
  by (cases c) auto

lemma call_tool_inv: "db_inv db \<Longrightarrow> db_inv (snd (call_tool f db c))"
proof (cases c)
  case (AddExpense d a cat s n)
  assume "db_inv db"
  then show ?thesis
    using add_expense_inv [of db f d a cat s n] AddExpense
    by (cases "add_expense f db d a cat s n") simp
qed simp_all

lemma call_tool_append:
  assumes "expenses db = Some t"
  shows "\<exists>t' ys. expenses (snd (call_tool f db c)) = Some t' \<and> rows t' = rows t @ ys"
proof (cases c)
  case (AddExpense d a cat s n)
  then show ?thesis
    using assms by (auto simp: add_expense_eq insert_row_def split: option.split sum.split prod.split)
qed (use assms in simp_all)

lemma logged_rows_Cons:
  "logged_rows (c # cs) (r # rs) = logged_rows [c] [r] @ logged_rows cs rs"
  by (cases "(c # cs, r # rs)" rule: logged_rows.cases) auto

lemma call_tool_rows:
  assumes "expenses db = Some t" and "call_tool f db c = (r, db1)"
  shows "\<exists>t1. expenses db1 = Some t1 \<and> rows t1 = rows t @ logged_rows [c] [r]"
proof (cases c)
  case (AddExpense d a cat s n)
  then show ?thesis
    using assms by (auto simp: add_expense_eq insert_row_def split: option.splits sum.splits prod.splits)
qed (use assms in auto)

lemma init_db_append:
  "expenses d = Some t \<Longrightarrow> init_db f d = Inr d' \<Longrightarrow> expenses d' = Some t"
  by (auto dest: init_db_Inr simp: create_table_if_not_exists_def)


lemma run_calls_adds:
  assumes "expenses db = Some t" and "table_inv t" and "list_all is_add cs"
    and "seq t + int (length cs) \<le> max_rowid"
  shows "run_calls (map (Pair no_faults) cs) db =
     (map (\<lambda>k. Inr (Dict [(''status'', Text ''success''), (''id'', Integer (seq t + 1 + int k))]))
          [0..<length cs],
      db\<lparr>expenses := Some (t\<lparr>rows := rows t @ added_rows (seq t) cs,
                               seq := seq t + int (length cs)\<rparr>)\<rparr>)"
  using assms
proof (induction cs arbitrary: db t)
  case Nil
  then show ?case by simp
next
  case (Cons c cs)
  obtain d a cat s n where c: "c = AddExpense d a cat s n"
    using Cons.prems(3) by (cases c) auto
  define t1 where "t1 = t\<lparr>rows := rows t @ [\<lparr>rowid = seq t + 1, date = d, amount = a,
      category = cat, subcategory = s, note_text = n\<rparr>], seq := seq t + 1\<rparr>"
  have lt: "seq t < max_rowid" using Cons.prems(4) by simp
  have step: "call_tool no_faults db c =
      (Inr (Dict [(''status'', Text ''success''), (''id'', Integer (seq t + 1))]),
       db\<lparr>expenses := Some t1\<rparr>)"
    using Cons.prems(1,2) lt by (simp add: c add_expense_no_faults t1_def)
  have "insert_row d a cat s n t = Inr (seq t + 1, t1)"
    using Cons.prems(2) lt by (simp add: insert_row_eq t1_def)
  then have inv1: "table_inv t1"
    by (rule table_inv_insert_row [OF Cons.prems(2)])
  have rest: "run_calls (map (Pair no_faults) cs) (db\<lparr>expenses := Some t1\<rparr>) =
     (map (\<lambda>k. Inr (Dict [(''status'', Text ''success''), (''id'', Integer (seq t1 + 1 + int k))]))
          [0..<length cs],
      (db\<lparr>expenses := Some t1\<rparr>)\<lparr>expenses := Some (t1\<lparr>rows := rows t1 @ added_rows (seq t1) cs,
                               seq := seq t1 + int (length cs)\<rparr>)\<rparr>)"
    using Cons.prems(3,4) inv1 by (intro Cons.IH) (simp_all add: t1_def)
  show ?case
    using step rest by (simp del: upt_Suc add: c t1_def map_upt_Suc algebra_simps)
qed


lemma length_added_rows: "list_all is_add cs \<Longrightarrow> length (added_rows i cs) = length cs"
  by (induction i cs rule: added_rows.induct) simp_all

lemma run_calls_inv: "db_inv db \<Longrightarrow> db_inv (snd (run_calls cs db))"
proof (induction cs arbitrary: db)
  case (Cons fc cs)
  obtain f c where "fc = (f, c)" by fastforce
  then show ?case
    using Cons.IH [OF call_tool_inv [OF Cons.prems, of f c]]
    by (auto split: prod.split)
qed simp


subsection \<open>Properties of served runs\<close>

text \<open>
  C5. In every state a server can reach from a fresh database file (any number of
  starts, and of calls with any storage outcomes), the \<open>expenses\<close> table exists
  and satisfies the store invariant: rowids strictly increasing in scan order,
  positive, not above the sequence entry, which stays within the 64-bit range.
\<close>

theorem reachable_store_inv: "reachable d \<Longrightarrow> db_inv d \<and> expenses d \<noteq> None"
proof (induction rule: reachable.induct)
  case (start f d)
  then show ?case
    using init_db_Inr [OF start] create_table_exists [of empty_db]
    by (auto intro: db_inv_create_table)
next
  case (call d f c)
  then obtain t where "expenses d = Some t" by auto
  then show ?case
    using call.IH call_tool_inv [of d f c] call_tool_append [of d t f c] by auto
next
  case (restart d f d')
  then show ?case
    using init_db_Inr [OF restart.hyps(2)] by (auto intro: db_inv_create_table
        simp: create_table_if_not_exists_def split: option.splits)
qed

theorem reachable_store_inv_witness:
  "db_inv (snd (call_tool no_faults \<lparr>expenses = Some empty_table\<rparr>
                 (AddExpense ''2024-01-15'' 42.5 ''Food'' None None))) \<and>
   expenses (snd (call_tool no_faults \<lparr>expenses = Some empty_table\<rparr>
                 (AddExpense ''2024-01-15'' 42.5 ''Food'' None None))) \<noteq> None"
proof -
  have "reachable \<lparr>expenses = Some empty_table\<rparr>"
    by (rule reachable.start [of no_faults]) (simp add: init_db_def create_table_if_not_exists_def empty_db_def)
  then have "reachable (snd (call_tool no_faults \<lparr>expenses = Some empty_table\<rparr>
                 (AddExpense ''2024-01-15'' 42.5 ''Food'' None None)))"
    by (rule reachable.call)
  then show ?thesis by (rule reachable_store_inv)
qed

text \<open>
  C15. The file is the log of the successful inserts: over any sequence of calls,
  with any storage outcomes, the rows afterwards are the rows before followed, in
  serving order, by exactly one row per \<open>add_expense\<close> call that replied
  \<open>{"status": "success", "id": i}\<close>, with rowid \<open>i\<close> and the caller's values; no
  failed call leaves a row, no reply reports a row that is not there, and no row is
  changed or removed.
\<close>

theorem run_calls_rows:
  "expenses db = Some t \<Longrightarrow> run_calls cs db = (rs, db') \<Longrightarrow>
   \<exists>t'. expenses db' = Some t' \<and> rows t' = rows t @ logged_rows (map snd cs) rs"
proof (induction cs arbitrary: db t rs)
  case Nil
  then show ?case by auto
next
  case (Cons fc cs)
  obtain f c where fc: "fc = (f, c)" by fastforce
  obtain r db1 where step: "call_tool f db c = (r, db1)" by fastforce
  obtain t1 where t1: "expenses db1 = Some t1" and r1: "rows t1 = rows t @ logged_rows [c] [r]"
    using call_tool_rows [OF Cons.prems(1) step] by blast
  obtain rs1 where rest: "run_calls cs db1 = (rs1, db')" and rs: "rs = r # rs1"
    using Cons.prems(2) fc step by (auto split: prod.splits)
  obtain t' where "expenses db' = Some t'" and "rows t' = rows t1 @ logged_rows (map snd cs) rs1"
    using Cons.IH [OF t1 rest] by blast
  then show ?case
    using r1 logged_rows_Cons [of c "map snd cs" r rs1] by (simp add: fc rs)
qed

theorem run_calls_rows_witness:
  "\<exists>t'. expenses \<lparr>expenses = Some (ex_table\<lparr>rows := rows ex_table @
        [\<lparr>rowid = 5, date = ''2024-02-02'', amount = 3, category = ''Food'', subcategory = None,
          note_text = Some ''taxi''\<rparr>], seq := 5\<rparr>)\<rparr> = Some t' \<and>
     rows t' = rows ex_table @
       logged_rows [ListExpenses ''2024-01-01'' ''2024-12-31'',
                    AddExpense ''2024-02-02'' 3 ''Food'' None (Some ''taxi''),
                    AddExpense ''2024-02-03'' 4 ''Food'' None None]
         [Inr (Dicts (map expense_dict [rows ex_table ! 3, rows ex_table ! 2, rows ex_table ! 1,
                                        rows ex_table ! 0])),
          Inr (Dict [(''status'', Text ''success''), (''id'', Integer 5)]),
          Inl Busy]"
proof -
  let ?busy = "\<lparr>connect_fault = None, execute_fault = None, commit_fault = Some Busy\<rparr>"
  have h: "run_calls [(no_faults, ListExpenses ''2024-01-01'' ''2024-12-31''),
                      (no_faults, AddExpense ''2024-02-02'' 3 ''Food'' None (Some ''taxi'')),
                      (?busy, AddExpense ''2024-02-03'' 4 ''Food'' None None)]
             \<lparr>expenses = Some ex_table\<rparr> =
           ([Inr (Dicts (map expense_dict [rows ex_table ! 3, rows ex_table ! 2, rows ex_table ! 1,
                                          rows ex_table ! 0])),
             Inr (Dict [(''status'', Text ''success''), (''id'', Integer 5)]),
             Inl Busy],
            \<lparr>expenses = Some (ex_table\<lparr>rows := rows ex_table @
               [\<lparr>rowid = 5, date = ''2024-02-02'', amount = 3, category = ''Food'',
                  subcategory = None, note_text = Some ''taxi''\<rparr>], seq := 5\<rparr>)\<rparr>)"
    by (simp add: list_expenses_eq range_rows_def model_defs ex_table_def)
  show ?thesis using run_calls_rows [OF _ h] by simp
qed


text \<open>
  C6. Concurrent inserts: any \<open>N\<close> \<open>add_expense\<close> calls, served in any order with
  the storage succeeding and rowids left, each return \<open>status: success\<close> with an
  id, the ids are strictly increasing in serving order (so pairwise distinct) and
  larger than every rowid already stored, and the table ends with exactly \<open>N\<close>
  more rows.
\<close>

theorem concurrent_inserts:
  assumes "expenses db = Some t" and "table_inv t" and "list_all is_add cs"
    and "seq t + int (length cs) \<le> max_rowid"
    and "run_calls (map (Pair no_faults) cs) db = (rs, db')"
  shows "\<exists>ids t'. rs = map (\<lambda>i. Inr (Dict [(''status'', Text ''success''), (''id'', Integer i)])) ids \<and>
           length ids = length cs \<and> sorted_wrt (<) ids \<and>
           (\<forall>i\<in>set ids. \<forall>r\<in>set (rows t). rowid r < i) \<and>
           expenses db' = Some t' \<and> length (rows t') = length (rows t) + length cs"
proof -
  let ?ids = "map (\<lambda>k. seq t + 1 + int k) [0..<length cs]"
  have eq: "rs = map (\<lambda>i. Inr (Dict [(''status'', Text ''success''), (''id'', Integer i)])) ?ids"
    and db': "db' = db\<lparr>expenses := Some (t\<lparr>rows := rows t @ added_rows (seq t) cs,
                               seq := seq t + int (length cs)\<rparr>)\<rparr>"
    using run_calls_adds [OF assms(1-4)] assms(5) by simp_all
  have "sorted_wrt (<) ?ids"
    by (simp add: sorted_wrt_map sorted_wrt_iff_nth_less)
  moreover have "\<forall>i\<in>set ?ids. \<forall>r\<in>set (rows t). rowid r < i"
    using assms(2) by (auto simp: table_inv_def list_all_iff)
  ultimately show ?thesis
    using eq db' length_added_rows [OF assms(3)] by (intro exI [of _ ?ids]) simp
qed

theorem concurrent_inserts_witness:
  "\<exists>ids t'. ([Inr (Dict [(''status'', Text ''success''), (''id'', Integer 1)]),
             Inr (Dict [(''status'', Text ''success''), (''id'', Integer 2)])] ::
            (storage_error + reply) list) =
           map (\<lambda>i. Inr (Dict [(''status'', Text ''success''), (''id'', Integer i)])) ids \<and>
           length ids = length [AddExpense ''2024-01-15'' 10 ''Food'' None None,
                                AddExpense ''2024-01-15'' 5 ''Travel'' None None] \<and>
           sorted_wrt (<) ids \<and>
           (\<forall>i\<in>set ids. \<forall>r\<in>set (rows empty_table). rowid r < i) \<and>
           expenses \<lparr>expenses = Some (empty_table\<lparr>rows :=
              added_rows 0 [AddExpense ''2024-01-15'' 10 ''Food'' None None,
                            AddExpense ''2024-01-15'' 5 ''Travel'' None None], seq := 2\<rparr>)\<rparr> = Some t' \<and>
           length (rows t') = length (rows empty_table) + 2"
proof -
  have h: "run_calls (map (Pair no_faults) [AddExpense ''2024-01-15'' 10 ''Food'' None None,
                                            AddExpense ''2024-01-15'' 5 ''Travel'' None None])
             \<lparr>expenses = Some empty_table\<rparr> =
           ([Inr (Dict [(''status'', Text ''success''), (''id'', Integer 1)]),
             Inr (Dict [(''status'', Text ''success''), (''id'', Integer 2)])],
            \<lparr>expenses = Some (empty_table\<lparr>rows :=
              added_rows 0 [AddExpense ''2024-01-15'' 10 ''Food'' None None,
                            AddExpense ''2024-01-15'' 5 ''Travel'' None None], seq := 2\<rparr>)\<rparr>)"
    by (simp add: model_defs)
  have "table_inv empty_table" by simp
  then show ?thesis
    using concurrent_inserts [OF _ _ _ _ h] by (simp add: model_defs)
qed

end
