(* ===== verification/Interleaving.thy ===== *)
theory Interleaving
  imports Sessions
begin

text \<open>
  Concurrent tool calls at the granularity of their \<open>await\<close>s.  Each call runs on
  its own connection.  \<open>add_expense\<close> (src/main.py lines 44--51) takes two steps:
  connect and \<open>INSERT\<close> (which opens the write transaction and takes SQLite's
  \<open>RESERVED\<close> lock, so no other connection can start a write until it ends), then
  \<open>commit()\<close> and the close of the \<open>async with\<close> block (which releases the lock,
  rolling back what was not committed).  A second writer that finds the lock taken
  waits (its step is not enabled) or fails with \<open>Busy\<close> when the busy timeout
  expires.  A read (\<open>list_expenses\<close>, \<open>summarize\<close>) is one step on the committed
  file: its \<open>SHARED\<close> lock keeps any commit out while it reads, and a writer's
  uncommitted rows are in the writer's connection only.  The interleaved system is
  the step relation \<open>conc_step\<close> over all in-flight calls; the lemmas show that every
  finished interleaving has the effect of a serial run of \<open>Sessions\<close>, and that
  the fault-free serial run in arrival order is itself an interleaving (no call is
  forced to fail by the lock).
\<close>

subsection \<open>In-flight calls and the system state\<close>

datatype proc =
    Ready tool_call
  | Pending string real string "string option" "string option" int conn
  | Done "storage_error + reply"

record sys =
  store :: db
  lock :: "nat option"
  procs :: "proc list"

definition conc_init :: "tool_call list \<Rightarrow> db \<Rightarrow> sys" where
  "conc_init cs db = \<lparr>store = db, lock = None, procs = map Ready cs\<rparr>"

definition success_reply :: "int \<Rightarrow> storage_error + reply" where
  "success_reply r = Inr (Dict [(''status'', Text ''success''), (''id'', Integer r)])"

text \<open>One step of one call \<open>i\<close>; \<open>f\<close> is what the storage does in that step.\<close>

inductive conc_step :: "sys \<Rightarrow> sys \<Rightarrow> bool" where
  exec:
    "\<lbrakk>i < length (procs s); procs s ! i = Ready (AddExpense d a c sb n); lock s = None;
      connect f (store s) = Inr cn; execute_insert f cn d a c sb n = Inr (r, cw)\<rbrakk> \<Longrightarrow>
     conc_step s (s\<lparr>lock := Some i, procs := (procs s)[i := Pending d a c sb n r cw]\<rparr>)"
| connect_fail:
    "\<lbrakk>i < length (procs s); procs s ! i = Ready (AddExpense d a c sb n);
      connect f (store s) = Inl e\<rbrakk> \<Longrightarrow>
     conc_step s (s\<lparr>procs := (procs s)[i := Done (Inl e)]\<rparr>)"
| exec_fail:
    "\<lbrakk>i < length (procs s); procs s ! i = Ready (AddExpense d a c sb n);
      connect f (store s) = Inr cn; execute_insert f cn d a c sb n = Inl e\<rbrakk> \<Longrightarrow>
     conc_step s (s\<lparr>procs := (procs s)[i := Done (Inl e)]\<rparr>)"
| commit_ok:
    "\<lbrakk>i < length (procs s); procs s ! i = Pending d a c sb n r cw; commit f cw = Inr cc\<rbrakk> \<Longrightarrow>
     conc_step s (s\<lparr>store := close_conn cc, lock := None,
                    procs := (procs s)[i := Done (success_reply r)]\<rparr>)"
| commit_fail:
    "\<lbrakk>i < length (procs s); procs s ! i = Pending d a c sb n r cw; commit f cw = Inl e\<rbrakk> \<Longrightarrow>
     conc_step s (s\<lparr>store := close_conn cw, lock := None,
                    procs := (procs s)[i := Done (Inl e)]\<rparr>)"
| read:
    "\<lbrakk>i < length (procs s); procs s ! i = Ready c; \<not> is_add c\<rbrakk> \<Longrightarrow>
     conc_step s (s\<lparr>procs := (procs s)[i := Done (fst (call_tool f (store s) c))]\<rparr>)"

fun is_done :: "proc \<Rightarrow> bool" where
  "is_done (Done r) = True"
| "is_done _ = False"

fun is_pending :: "proc \<Rightarrow> bool" where
  "is_pending (Pending d a c sb n r cn) = True"
| "is_pending _ = False"

subsection \<open>The simulation invariant\<close>

text \<open>
  The state of a run of the calls \<open>cs\<close> from the file \<open>db\<close>: a ready call is
  still the call it was; a pending write holds the lock, its connection's committed
  state is the file, and its \<open>INSERT\<close> is the one a fault-free connection would run
  on the file; the lock is held by a pending write only; and the finished calls,
  in some order and with some storage outcomes, are a serial run from \<open>db\<close> that
  ends in the current file and gave each of them its reply.
\<close>

definition pending_ok :: "tool_call list \<Rightarrow> sys \<Rightarrow> nat \<Rightarrow> bool" where
  "pending_ok cs s i =
     (case procs s ! i of
        Ready c \<Rightarrow> c = cs ! i
      | Pending d a c sb n r cn \<Rightarrow>
          cs ! i = AddExpense d a c sb n \<and> lock s = Some i \<and> committed cn = store s \<and>
          execute_insert no_faults \<lparr>committed = store s, pending = None\<rparr> d a c sb n = Inr (r, cn)
      | Done r \<Rightarrow> True)"

definition serial_done :: "tool_call list \<Rightarrow> db \<Rightarrow> sys \<Rightarrow> bool" where
  "serial_done cs db s \<longleftrightarrow>
     (\<exists>ord fs rs. distinct ord \<and> set ord = {i. i < length cs \<and> is_done (procs s ! i)} \<and>
        length fs = length ord \<and> map ((!) (procs s)) ord = map Done rs \<and>
        run_calls (zip fs (map ((!) cs) ord)) db = (rs, store s))"

definition conc_inv :: "tool_call list \<Rightarrow> db \<Rightarrow> sys \<Rightarrow> bool" where
  "conc_inv cs db s \<longleftrightarrow>
     length (procs s) = length cs \<and> (\<forall>i < length cs. pending_ok cs s i) \<and>
     (\<forall>i. lock s = Some i \<longrightarrow> i < length cs \<and> is_pending (procs s ! i)) \<and>
     serial_done cs db s"


subsection \<open>An example run\<close>

text \<open>Two inserts and a listing from a fresh table: the first insert takes the write
  lock, the second times out on it with \<open>Busy\<close>, the first commits, then the
  listing reads.\<close>

definition ex_row :: expense where
  "ex_row = \<lparr>rowid = 1, date = ''2024-01-15'', amount = 42.5, category = ''Food'',
             subcategory = None, note_text = None\<rparr>"

definition ex_calls :: "tool_call list" where
  "ex_calls = [AddExpense ''2024-01-15'' 42.5 ''Food'' None None,
               AddExpense ''2024-01-20'' 5 ''Travel'' None None,
               ListExpenses ''2024-01-01'' ''2024-01-31'']"

definition ex_final :: sys where
  "ex_final =
     \<lparr>store = \<lparr>expenses = Some (empty_table\<lparr>rows := [ex_row], seq := 1\<rparr>)\<rparr>, lock = None,
      procs = [Done (success_reply 1), Done (Inl Busy), Done (Inr (Dicts [expense_dict ex_row]))]\<rparr>"

subsection \<open>Facts about steps and runs\<close>

lemma run_calls_snoc:
  "run_calls (xs @ [(f, c)]) db =
     (case run_calls xs db of
        (rs, db1) \<Rightarrow> (case call_tool f db1 c of (r, db2) \<Rightarrow> (rs @ [r], db2)))"
  by (induction xs arbitrary: db) (auto split: prod.splits)

lemma execute_insert_Inr:
  "execute_insert f c d a cat s n = Inr (r, c1) \<Longrightarrow>
   execute_fault f = None \<and> committed c1 = committed c"
  by (auto simp: execute_insert_def split: option.splits sum.splits)

lemma execute_insert_no_fault:
  "execute_fault f = None \<Longrightarrow> execute_insert f c d a cat s n = execute_insert no_faults c d a cat s n"
  by (simp add: execute_insert_def)

lemma add_expense_steps:
  assumes "connect f db = Inr cn" and "execute_insert f cn d a cat s n = Inr (r, cn1)"
  shows "call_tool f db (AddExpense d a cat s n) =
     (case commit f cn1 of
        Inl e \<Rightarrow> (Inl e, close_conn cn1)
      | Inr cn2 \<Rightarrow> (success_reply r, close_conn cn2))"
  using assms by (simp add: add_expense_def success_reply_def split: sum.split)

lemma add_expense_pending:
  assumes "execute_insert no_faults \<lparr>committed = db, pending = None\<rparr> d a cat s n = Inr (r, cn1)"
  shows "call_tool (f\<lparr>connect_fault := None, execute_fault := None\<rparr>) db (AddExpense d a cat s n) =
     (case commit f cn1 of
        Inl e \<Rightarrow> (Inl e, close_conn cn1)
      | Inr cn2 \<Rightarrow> (success_reply r, close_conn cn2))"
proof -
  let ?f = "f\<lparr>connect_fault := None, execute_fault := None\<rparr>"
  have c: "connect ?f db = Inr \<lparr>committed = db, pending = None\<rparr>"
    by (simp add: connect_def)
  have e: "execute_insert ?f \<lparr>committed = db, pending = None\<rparr> d a cat s n = Inr (r, cn1)"
    using assms by (simp add: execute_insert_def no_faults_def)
  have eq: "commit ?f cn1 = commit f cn1"
    unfolding commit_def by (simp split: option.split)
  show ?thesis
    using add_expense_steps [OF c e] unfolding eq .
qed

lemma serial_done_extend:
  assumes "serial_done cs db s" and "i < length cs" and "length (procs s) = length cs"
    and "\<not> is_done (procs s ! i)" and "call_tool f (store s) (cs ! i) = (r, db2)"
    and "store s' = db2" and "procs s' = (procs s)[i := Done r]"
  shows "serial_done cs db s'"
proof -
  obtain ord fs rs where o: "distinct ord" "set ord = {j. j < length cs \<and> is_done (procs s ! j)}"
    "length fs = length ord" "map ((!) (procs s)) ord = map Done rs"
    "run_calls (zip fs (map ((!) cs) ord)) db = (rs, store s)"
    using assms(1) by (auto simp: serial_done_def)
  have i: "i \<notin> set ord" using o(2) assms(4) by simp
  have "map ((!) (procs s')) ord = map ((!) (procs s)) ord"
    using i by (auto simp: assms(7) intro!: nth_list_update_neq)
  then have "map ((!) (procs s')) (ord @ [i]) = map Done (rs @ [r])"
    using o(4) assms(2,3,7) by simp
  moreover have "run_calls (zip (fs @ [f]) (map ((!) cs) (ord @ [i]))) db = (rs @ [r], store s')"
    using o(3,5) assms(5,6) by (simp add: run_calls_snoc)
  moreover have "set (ord @ [i]) = {j. j < length cs \<and> is_done (procs s' ! j)}"
    using o(2) assms(2,3,7) by (auto simp: nth_list_update)
  ultimately show ?thesis
    using o(1,3) i unfolding serial_done_def
    by (intro exI [of _ "ord @ [i]"] exI [of _ "fs @ [f]"] exI [of _ "rs @ [r]"]) simp
qed

lemma serial_done_same:
  assumes "serial_done cs db s" and "length (procs s) = length cs"
    and "\<not> is_done (procs s ! i)" and "\<not> is_done p"
    and "store s' = store s" and "procs s' = (procs s)[i := p]"
  shows "serial_done cs db s'"
proof -
  obtain ord fs rs where o: "distinct ord" "set ord = {j. j < length cs \<and> is_done (procs s ! j)}"
    "length fs = length ord" "map ((!) (procs s)) ord = map Done rs"
    "run_calls (zip fs (map ((!) cs) ord)) db = (rs, store s)"
    using assms(1) by (auto simp: serial_done_def)
  have i: "i \<notin> set ord" using o(2) assms(3) by simp
  have "map ((!) (procs s')) ord = map ((!) (procs s)) ord"
    using i by (auto simp: assms(6) intro!: nth_list_update_neq)
  then have m: "map ((!) (procs s')) ord = map Done rs"
    using o(4) by simp
  have d: "is_done (procs s' ! j) \<longleftrightarrow> is_done (procs s ! j)" for j
  proof (cases "j = i")
    case True
    then show ?thesis using assms(3,4,6) by (cases "i < length (procs s)") (auto simp: list_update_beyond)
  qed (simp add: assms(6))
  have "set ord = {j. j < length cs \<and> is_done (procs s' ! j)}"
    using o(2) d by simp
  then show ?thesis
    using o(1,3,5) m assms(5) unfolding serial_done_def
    by (intro exI [of _ ord] exI [of _ fs] exI [of _ rs]) simp
qed


lemma pending_ok_keep:
  assumes "pending_ok cs s j" and "procs s' ! j = procs s ! j"
    and "is_pending (procs s ! j) \<Longrightarrow> store s' = store s \<and> lock s' = lock s"
  shows "pending_ok cs s' j"
  using assms by (cases "procs s ! j") (auto simp: pending_ok_def)

lemma pending_lock:
  "pending_ok cs s j \<Longrightarrow> is_pending (procs s ! j) \<Longrightarrow> lock s = Some j"
  by (cases "procs s ! j") (auto simp: pending_ok_def)

lemma conc_inv_update:
  assumes inv: "conc_inv cs db s" and i: "i < length (procs s)"
    and p: "procs s' = (procs s)[i := p]"
    and ok: "pending_ok cs s' i"
    and others: "\<And>j. j < length cs \<Longrightarrow> j \<noteq> i \<Longrightarrow> is_pending (procs s ! j) \<Longrightarrow>
                   store s' = store s \<and> lock s' = lock s"
    and lk: "\<And>j. lock s' = Some j \<Longrightarrow> j = i \<and> is_pending p \<or> j \<noteq> i \<and> lock s = Some j"
    and ser: "serial_done cs db s'"
  shows "conc_inv cs db s'"
proof -
  have len: "length (procs s) = length cs" using inv by (simp add: conc_inv_def)
  have "pending_ok cs s' j" if "j < length cs" for j
  proof (cases "j = i")
    case False
    show ?thesis
    proof (rule pending_ok_keep [where s = s])
      show "pending_ok cs s j" using inv that by (simp add: conc_inv_def)
      show "procs s' ! j = procs s ! j" using False by (simp add: p)
      show "is_pending (procs s ! j) \<Longrightarrow> store s' = store s \<and> lock s' = lock s"
        by (rule others [OF that False])
    qed
  qed (use ok in simp)
  moreover have "j < length cs \<and> is_pending (procs s' ! j)" if "lock s' = Some j" for j
    using lk [OF that] inv i len by (auto simp: p conc_inv_def)
  ultimately show ?thesis
    using len ser by (simp add: conc_inv_def p)
qed

lemma conc_inv_done:
  assumes inv: "conc_inv cs db s" and i: "i < length cs" and nd: "\<not> is_done (procs s ! i)"
    and call: "call_tool f (store s) (cs ! i) = (r, store s')"
    and p: "procs s' = (procs s)[i := Done r]"
    and lk: "lock s' = (if lock s = Some i then None else lock s)"
    and st: "store s' \<noteq> store s \<Longrightarrow> lock s = Some i"
  shows "conc_inv cs db s'"
proof -
  have len: "length (procs s) = length cs" using inv by (simp add: conc_inv_def)
  have ok: "pending_ok cs s' j" if j: "j < length cs" for j
  proof (cases "j = i")
    case True
    then show ?thesis using i len by (simp add: p pending_ok_def)
  next
    case False
    have pj: "pending_ok cs s j" using inv j by (simp add: conc_inv_def)
    show ?thesis
    proof (rule pending_ok_keep [where s = s])
      show "pending_ok cs s j" by (rule pj)
      show "procs s' ! j = procs s ! j" using False by (simp add: p)
      assume "is_pending (procs s ! j)"
      then have "lock s = Some j" by (rule pending_lock [OF pj])
      then show "store s' = store s \<and> lock s' = lock s" using False st lk by auto
    qed
  qed
  have lock_ok: "j < length cs \<and> is_pending (procs s' ! j)" if "lock s' = Some j" for j
  proof -
    have "lock s = Some j" and "j \<noteq> i" using that lk by (auto split: if_splits)
    then show ?thesis using inv by (simp add: conc_inv_def p)
  qed
  have "serial_done cs db s'"
  proof (rule serial_done_extend [where s = s and i = i and f = f and r = r and s' = s'])
    show "serial_done cs db s" using inv by (simp add: conc_inv_def)
  qed (use i len nd call p in simp_all)
  then show ?thesis
    using ok lock_ok len by (simp add: conc_inv_def p)
qed


lemma conc_step_inv:
  assumes step: "conc_step s s'" and inv: "conc_inv cs db s"
  shows "conc_inv cs db s'"
  using step
proof (cases rule: conc_step.cases)
  case (exec i d a c sb n f cn r cn1)
  have len: "length (procs s) = length cs" using inv by (simp add: conc_inv_def)
  have ci: "cs ! i = AddExpense d a c sb n"
    using inv exec len by (auto simp: conc_inv_def pending_ok_def)
  have cn: "cn = \<lparr>committed = store s, pending = None\<rparr>" using exec(5) by (rule connect_Inr)
  have e: "execute_fault f = None" "committed cn1 = store s"
    using execute_insert_Inr [OF exec(6)] cn by simp_all
  have x: "execute_insert no_faults \<lparr>committed = store s, pending = None\<rparr> d a c sb n = Inr (r, cn1)"
    using execute_insert_no_fault [OF e(1), of cn d a c sb n] exec(6) cn by simp
  have np: "\<not> is_pending (procs s ! j)" if "j < length cs" for j
  proof
    assume "is_pending (procs s ! j)"
    moreover have "pending_ok cs s j" using inv that by (simp add: conc_inv_def)
    ultimately have "lock s = Some j" by (rule pending_lock [rotated])
    then show False using exec(4) by simp
  qed
  show ?thesis
  proof (rule conc_inv_update [where s = s and i = i and p = "Pending d a c sb n r cn1" and s' = s'])
    show "pending_ok cs s' i" using exec ci e x by (simp add: pending_ok_def)
    show "serial_done cs db s'"
      by (rule serial_done_same [where s = s and i = i and p = "Pending d a c sb n r cn1"])
        (use inv exec len in \<open>simp_all add: conc_inv_def\<close>)
  qed (use inv exec np in auto)
next
  case (connect_fail i d a c sb n f e)
  have len: "length (procs s) = length cs" using inv by (simp add: conc_inv_def)
  have "cs ! i = AddExpense d a c sb n"
    using inv connect_fail len by (auto simp: conc_inv_def pending_ok_def)
  then have call: "call_tool f (store s) (cs ! i) = (Inl e, store s')"
    using connect_fail by (simp add: add_expense_def)
  have nl: "lock s \<noteq> Some i" using inv connect_fail len by (auto simp: conc_inv_def)
  show ?thesis
    by (rule conc_inv_done [OF inv _ _ call]) (use connect_fail len nl in auto)
next
  case (exec_fail i d a c sb n f cn e)
  have len: "length (procs s) = length cs" using inv by (simp add: conc_inv_def)
  have "cs ! i = AddExpense d a c sb n"
    using inv exec_fail len by (auto simp: conc_inv_def pending_ok_def)
  then have call: "call_tool f (store s) (cs ! i) = (Inl e, store s')"
    using exec_fail connect_Inr [OF exec_fail(4)] by (simp add: add_expense_def close_conn_def)
  have nl: "lock s \<noteq> Some i" using inv exec_fail len by (auto simp: conc_inv_def)
  show ?thesis
    by (rule conc_inv_done [OF inv _ _ call]) (use exec_fail len nl in auto)
next
  case (commit_ok i d a c sb n r cn1 f cn2)
  have len: "length (procs s) = length cs" using inv by (simp add: conc_inv_def)
  have po: "cs ! i = AddExpense d a c sb n" "lock s = Some i"
    "execute_insert no_faults \<lparr>committed = store s, pending = None\<rparr> d a c sb n = Inr (r, cn1)"
    using inv commit_ok len by (auto simp: conc_inv_def pending_ok_def)
  have call: "call_tool (f\<lparr>connect_fault := None, execute_fault := None\<rparr>) (store s) (cs ! i) =
        (success_reply r, store s')"
    using add_expense_pending [OF po(3), of f] po(1) commit_ok by simp
  show ?thesis
    by (rule conc_inv_done [OF inv _ _ call]) (use commit_ok len po(2) in auto)
next
  case (commit_fail i d a c sb n r cn1 f e)
  have len: "length (procs s) = length cs" using inv by (simp add: conc_inv_def)
  have po: "cs ! i = AddExpense d a c sb n" "lock s = Some i"
    "execute_insert no_faults \<lparr>committed = store s, pending = None\<rparr> d a c sb n = Inr (r, cn1)"
    using inv commit_fail len by (auto simp: conc_inv_def pending_ok_def)
  have call: "call_tool (f\<lparr>connect_fault := None, execute_fault := None\<rparr>) (store s) (cs ! i) =
        (Inl e, store s')"
    using add_expense_pending [OF po(3), of f] po(1) commit_fail by simp
  show ?thesis
    by (rule conc_inv_done [OF inv _ _ call]) (use commit_fail len po(2) in auto)
next
  case (read i c f)
  have len: "length (procs s) = length cs" using inv by (simp add: conc_inv_def)
  have ci: "cs ! i = c" using inv read len by (auto simp: conc_inv_def pending_ok_def)
  have "snd (call_tool f (store s) c) = store s" by (rule call_tool_reads [OF read(4)])
  then have call: "call_tool f (store s) (cs ! i) = (fst (call_tool f (store s) c), store s')"
    using ci read(1) by (simp add: prod_eq_iff)
  have nl: "lock s \<noteq> Some i" using inv read len by (auto simp: conc_inv_def)
  show ?thesis
    by (rule conc_inv_done [OF inv _ _ call]) (use read len nl in auto)
qed


lemma conc_init_inv: "conc_inv cs db (conc_init cs db)"
proof -
  have "serial_done cs db (conc_init cs db)"
    unfolding serial_done_def
    by (intro exI [of _ "[]"]) (simp add: conc_init_def)
  then show ?thesis by (simp add: conc_inv_def conc_init_def pending_ok_def)
qed

lemma conc_run_inv:
  assumes "conc_step\<^sup>*\<^sup>* (conc_init cs db) s"
  shows "conc_inv cs db s"
  using assms
proof (induction rule: rtranclp_induct)
  case base
  then show ?case by (rule conc_init_inv)
next
  case (step s s')
  then show ?case by (blast intro: conc_step_inv)
qed



lemma ex_run: "conc_step\<^sup>*\<^sup>* (conc_init ex_calls \<lparr>expenses = Some empty_table\<rparr>) ex_final"
proof -
  let ?db = "\<lparr>expenses = Some empty_table\<rparr>"
  let ?s0 = "conc_init ex_calls ?db"
  let ?t1 = "empty_table\<lparr>rows := [ex_row], seq := 1\<rparr>"
  let ?cn1 = "\<lparr>committed = ?db, pending = Some \<lparr>expenses = Some ?t1\<rparr>\<rparr>"
  let ?s1 = "?s0\<lparr>lock := Some 0, procs := (procs ?s0)[0 := Pending ''2024-01-15'' 42.5 ''Food'' None None 1 ?cn1]\<rparr>"
  have 1: "conc_step ?s0 ?s1"
    by (rule conc_step.exec [where f = no_faults and cn = "\<lparr>committed = ?db, pending = None\<rparr>"])
      (simp_all add: conc_init_def ex_calls_def execute_insert_def insert_row_def autoinc_rowid_def
         max_rowid_def current_def empty_table_def ex_row_def)
  let ?busy = "\<lparr>connect_fault = None, execute_fault = Some Busy, commit_fault = None\<rparr>"
  let ?s2 = "?s1\<lparr>procs := (procs ?s1)[1 := Done (Inl Busy)]\<rparr>"
  have 2: "conc_step ?s1 ?s2"
    by (rule conc_step.exec_fail [where f = ?busy and cn = "\<lparr>committed = ?db, pending = None\<rparr>"])
      (simp_all add: conc_init_def ex_calls_def execute_insert_def connect_def)
  let ?s3 = "?s2\<lparr>store := close_conn \<lparr>committed = \<lparr>expenses = Some ?t1\<rparr>, pending = None\<rparr>, lock := None,
                   procs := (procs ?s2)[0 := Done (success_reply 1)]\<rparr>"
  have 3: "conc_step ?s2 ?s3"
    by (rule conc_step.commit_ok [where f = no_faults and d = "''2024-01-15''" and a = "42.5"
          and c = "''Food''" and sb = None and n = None and r = 1 and cw = ?cn1])
      (simp_all add: conc_init_def ex_calls_def commit_def)
  let ?s4 = "?s3\<lparr>procs := (procs ?s3)[2 := Done (fst (call_tool no_faults (store ?s3)
                 (ListExpenses ''2024-01-01'' ''2024-01-31'')))]\<rparr>"
  have 4: "conc_step ?s3 ?s4"
    by (rule conc_step.read) (simp_all add: conc_init_def ex_calls_def)
  have "conc_step\<^sup>*\<^sup>* ?s0 ?s4"
    using 1 2 3 4 by (meson rtranclp.rtrancl_into_rtrancl rtranclp.rtrancl_refl)
  moreover have "?s4 = ex_final"
    by (simp add: ex_final_def conc_init_def ex_calls_def close_conn_def list_expenses_eq
        range_rows_def ex_row_def)
  ultimately show ?thesis by simp
qed


lemma commit_no_faults_ex: "\<exists>cc. commit no_faults cw = Inr cc"
  by (cases "pending cw") (auto simp: commit_def no_faults_def)

lemma conc_step_call:
  assumes i: "i < length (procs s)" and rd: "procs s ! i = Ready c" and lk: "lock s = None"
    and call: "call_tool no_faults (store s) c = (r, db1)"
  shows "\<exists>s'. conc_step\<^sup>*\<^sup>* s s' \<and> store s' = db1 \<and> lock s' = None \<and>
              procs s' = (procs s)[i := Done r]"
proof (cases "is_add c")
  case True
  then obtain d a cat sb n where c: "c = AddExpense d a cat sb n" by (cases c) auto
  let ?cn = "\<lparr>committed = store s, pending = None\<rparr>"
  show ?thesis
  proof (cases "execute_insert no_faults ?cn d a cat sb n")
    case (Inl e)
    have "conc_step s (s\<lparr>procs := (procs s)[i := Done (Inl e)]\<rparr>)"
      by (rule conc_step.exec_fail [OF i rd [unfolded c] connect_no_faults Inl])
    moreover have "r = Inl e" "db1 = store s"
      using call Inl by (simp_all add: c add_expense_def)
    ultimately show ?thesis
      using lk by (intro exI [of _ "s\<lparr>procs := (procs s)[i := Done r]\<rparr>"]) auto
  next
    case (Inr p)
    then obtain r0 cw where x: "execute_insert no_faults ?cn d a cat sb n = Inr (r0, cw)"
      by (cases p) auto
    let ?s1 = "s\<lparr>lock := Some i, procs := (procs s)[i := Pending d a cat sb n r0 cw]\<rparr>"
    have 1: "conc_step s ?s1"
      by (rule conc_step.exec [OF i rd [unfolded c] lk connect_no_faults x])
    obtain cc where cc: "commit no_faults cw = Inr cc" using commit_no_faults_ex by blast
    let ?s2 = "?s1\<lparr>store := close_conn cc, lock := None,
                    procs := (procs ?s1)[i := Done (success_reply r0)]\<rparr>"
    have 2: "conc_step ?s1 ?s2"
      by (rule conc_step.commit_ok [OF _ _ cc]) (use i in simp_all)
    have "call_tool no_faults (store s) c = (success_reply r0, close_conn cc)"
      using add_expense_steps [OF connect_no_faults x] cc by (simp add: c)
    then have "r = success_reply r0" "db1 = close_conn cc" using call by simp_all
    then show ?thesis
      using 1 2 by (intro exI [of _ ?s2]) simp
  qed
next
  case False
  have "conc_step s (s\<lparr>procs := (procs s)[i := Done (fst (call_tool no_faults (store s) c))]\<rparr>)"
    by (rule conc_step.read [OF i rd False])
  moreover have "r = fst (call_tool no_faults (store s) c)" "db1 = store s"
    using call call_tool_reads [OF False, of no_faults "store s"] by simp_all
  ultimately show ?thesis
    using lk by (intro exI [of _ "s\<lparr>procs := (procs s)[i := Done r]\<rparr>"]) auto
qed

lemma conc_serial_from:
  assumes "procs s = map Done rs @ map Ready cs" and "lock s = None"
  shows "\<exists>s'. conc_step\<^sup>*\<^sup>* s s' \<and>
     procs s' = map Done (rs @ fst (run_calls (map (Pair no_faults) cs) (store s))) \<and>
     store s' = snd (run_calls (map (Pair no_faults) cs) (store s))"
  using assms
proof (induction cs arbitrary: s rs)
  case Nil
  then show ?case by auto
next
  case (Cons c cs)
  obtain r db1 where call: "call_tool no_faults (store s) c = (r, db1)" by fastforce
  have i: "length rs < length (procs s)" and rd: "procs s ! length rs = Ready c"
    using Cons.prems(1) by (simp_all add: nth_append)
  obtain s1 where 1: "conc_step\<^sup>*\<^sup>* s s1" and st1: "store s1 = db1" and lk1: "lock s1 = None"
    and p1: "procs s1 = (procs s)[length rs := Done r]"
    using conc_step_call [OF i rd Cons.prems(2) call] by blast
  have "procs s1 = map Done (rs @ [r]) @ map Ready cs"
    using p1 Cons.prems(1) by (simp add: list_update_append)
  then obtain s' where 2: "conc_step\<^sup>*\<^sup>* s1 s'"
    and p': "procs s' = map Done ((rs @ [r]) @ fst (run_calls (map (Pair no_faults) cs) db1))"
    and st': "store s' = snd (run_calls (map (Pair no_faults) cs) db1)"
    using Cons.IH [OF _ lk1] st1 by blast
  show ?case
    using 1 2 p' st' call by (intro exI [of _ s']) (auto split: prod.split)
qed


subsection \<open>Properties of interleaved runs\<close>

text \<open>
  C17. Serializability: every interleaving of any tool calls, with any storage
  outcomes at any step, that has finished all calls leaves the database file and
  gives each call the reply of a serial run of the same calls, one after the other
  in some order, each with some storage outcome.
\<close>

theorem conc_serializable:
  assumes "conc_step\<^sup>*\<^sup>* (conc_init cs db) s" and "list_all is_done (procs s)"
  shows "\<exists>ord fs rs. distinct ord \<and> set ord = {..<length cs} \<and> length fs = length cs \<and>
           map ((!) (procs s)) ord = map Done rs \<and>
           run_calls (zip fs (map ((!) cs) ord)) db = (rs, store s)"
proof -
  have inv: "conc_inv cs db s" using assms(1) by (rule conc_run_inv)
  then obtain ord fs rs where o: "distinct ord" "set ord = {i. i < length cs \<and> is_done (procs s ! i)}"
    "length fs = length ord" "map ((!) (procs s)) ord = map Done rs"
    "run_calls (zip fs (map ((!) cs) ord)) db = (rs, store s)"
    by (auto simp: conc_inv_def serial_done_def)
  have "set ord = {..<length cs}"
    using o(2) assms(2) inv by (auto simp: conc_inv_def list_all_length)
  moreover then have "length ord = length cs"
    using o(1) distinct_card [OF o(1)] by simp
  ultimately show ?thesis using o by auto
qed

theorem conc_serializable_witness:
  "\<exists>ord fs rs. distinct ord \<and> set ord = {..<length ex_calls} \<and> length fs = length ex_calls \<and>
     map ((!) (procs ex_final)) ord = map Done rs \<and>
     run_calls (zip fs (map ((!) ex_calls) ord)) \<lparr>expenses = Some empty_table\<rparr> = (rs, store ex_final)"
proof -
  have "list_all is_done (procs ex_final)" by (simp add: ex_final_def)
  then show ?thesis by (rule conc_serializable [OF ex_run])
qed

text \<open>
  C18. No call is forced to fail: whatever calls arrive together, the interleaved
  server can run them one after the other in arrival order, each with the storage
  succeeding, and then every call gets the reply, and the file the state, of the
  fault-free serial run.  In particular a writer that commits releases the write
  lock, so every later insert can still take it and succeed.
\<close>

theorem conc_serial_schedule:
  "\<exists>s. conc_step\<^sup>*\<^sup>* (conc_init cs db) s \<and>
       procs s = map Done (fst (run_calls (map (Pair no_faults) cs) db)) \<and>
       store s = snd (run_calls (map (Pair no_faults) cs) db)"
  using conc_serial_from [of "conc_init cs db" "[]" cs] by (simp add: conc_init_def)

end
