(* ===== verification/Categories.thy ===== *)
theory Categories
  imports Prelude
begin

text \<open>
  The resource \<open>expense:///categories\<close> (src/main.py lines 102--116): a constant
  dict, printed by \<open>json.dumps(..., indent=2)\<close>.  The printer \<open>dumps\<close> follows
  CPython's encoder for the values this program prints (strings, lists, dicts with
  string keys): \<open>ensure_ascii\<close> escapes, the separators \<open>","\<close> and \<open>": "\<close>
  that \<open>indent\<close> selects, one item per line indented by two spaces per level, and
  \<open>[]\<close>, \<open>{}\<close> for empty containers.  A client reads the text with a JSON
  decoder; \<open>loads\<close> is one (recursive descent with fuel, whitespace as JSON
  defines it, \<open>\uXXXX\<close> escapes within the model's 8-bit characters), and the
  lemmas show that it inverts the printer for every value, with the fuel
  \<open>length s + 1\<close> always sufficient.
\<close>

subsection \<open>JSON values and the printer\<close>

datatype json = JString string | JArray "json list" | JObject "(string \<times> json) list"

abbreviation quote_char :: char where "quote_char \<equiv> CHR 0x22"
abbreviation backslash :: char where "backslash \<equiv> CHR 0x5C"

text \<open>\<open>ensure_ascii\<close> escaping (\<open>py_encode_basestring_ascii\<close>): quote, backslash
  and the five control characters with a short escape get it; every other character
  outside \<open>' '\<close>..\<open>'~'\<close> becomes \<open>\\u00xx\<close> with lower-case hex digits.\<close>

definition hex_digit :: "nat \<Rightarrow> char" where
  "hex_digit n = (if n < 10 then char_of (48 + n) else char_of (87 + n))"

definition u_escape :: "char \<Rightarrow> string" where
  "u_escape c = [backslash, CHR ''u'', CHR ''0'', CHR ''0'',
                 hex_digit (of_char c div 16), hex_digit (of_char c mod 16)]"

definition esc_char :: "char \<Rightarrow> string" where
  "esc_char c =
     (if c = quote_char then [backslash, quote_char]
      else if c = backslash then [backslash, backslash]
      else if c = CHR 0x0A then [backslash, CHR ''n'']
      else if c = CHR 0x0D then [backslash, CHR ''r'']
      else if c = CHR 0x09 then [backslash, CHR ''t'']
      else if c = CHR 0x08 then [backslash, CHR ''b'']
      else if c = CHR 0x0C then [backslash, CHR ''f'']
      else if of_char c < (32::nat) \<or> (126::nat) < of_char c then u_escape c
      else [c])"

definition enc_str :: "string \<Rightarrow> string" where
  "enc_str s = quote_char # concat (map esc_char s) @ [quote_char]"

definition newline_indent :: "nat \<Rightarrow> string" where
  "newline_indent l = CHR 0x0A # replicate (2 * l) (CHR '' '')"

text \<open>With \<open>indent=2\<close> the encoder starts each item of a non-empty list or dict on
  a new line indented by two spaces per level, separates items by \<open>","\<close>, puts
  \<open>": "\<close> between key and value, and closes on a line of the outer level.\<close>

fun join_str :: "string \<Rightarrow> string list \<Rightarrow> string" where
  "join_str sep [] = []"
| "join_str sep [x] = x"
| "join_str sep (x # xs) = x @ sep @ join_str sep xs"

fun dumps :: "nat \<Rightarrow> json \<Rightarrow> string" where
  "dumps l (JString s) = enc_str s"
| "dumps l (JArray vs) =
     (if vs = [] then ''[]''
      else CHR ''['' # newline_indent (Suc l) @
           join_str ('','' @ newline_indent (Suc l)) (map (dumps (Suc l)) vs) @
           newline_indent l @ '']'')"
| "dumps l (JObject kvs) =
     (if kvs = [] then ''{}''
      else CHR ''{'' # newline_indent (Suc l) @
           join_str ('','' @ newline_indent (Suc l))
             (map (\<lambda>(k, v). enc_str k @ '': '' @ dumps (Suc l) v) kvs) @
           newline_indent l @ ''}'')"

subsection \<open>The decoder\<close>

definition is_ws :: "char \<Rightarrow> bool" where
  "is_ws c \<longleftrightarrow> c = CHR '' '' \<or> c = CHR 0x09 \<or> c = CHR 0x0A \<or> c = CHR 0x0D"

definition skip_ws :: "string \<Rightarrow> string" where
  "skip_ws s = dropWhile is_ws s"

definition hex_val :: "char \<Rightarrow> nat option" where
  "hex_val c =
     (let n = of_char c in
      if 48 \<le> n \<and> n \<le> 57 then Some (n - 48)
      else if 97 \<le> n \<and> n \<le> 102 then Some (n - 87)
      else if 65 \<le> n \<and> n \<le> 70 then Some (n - 55)
      else None)"

definition hex4 :: "char \<Rightarrow> char \<Rightarrow> char \<Rightarrow> char \<Rightarrow> char option" where
  "hex4 a b c d =
     (case (hex_val a, hex_val b, hex_val c, hex_val d) of
        (Some w, Some x, Some y, Some z) \<Rightarrow>
          (let n = 4096 * w + 256 * x + 16 * y + z in
           if n < 256 then Some (char_of n) else None)
      | _ \<Rightarrow> None)"

definition unescape :: "char \<Rightarrow> char option" where
  "unescape e =
     (if e = quote_char \<or> e = backslash \<or> e = CHR ''/'' then Some e
      else if e = CHR ''b'' then Some (CHR 0x08)
      else if e = CHR ''f'' then Some (CHR 0x0C)
      else if e = CHR ''n'' then Some (CHR 0x0A)
      else if e = CHR ''r'' then Some (CHR 0x0D)
      else if e = CHR ''t'' then Some (CHR 0x09)
      else None)"

fun parse_chars :: "string \<Rightarrow> (string \<times> string) option" where
  "parse_chars [] = None"
| "parse_chars (c # cs) =
     (if c = quote_char then Some ([], cs)
      else if c = backslash then
        (case cs of
           [] \<Rightarrow> None
         | e # cs' \<Rightarrow>
             (if e = CHR ''u'' then
                (case cs' of
                   a # b # x # y # rest \<Rightarrow>
                     (case hex4 a b x y of
                        None \<Rightarrow> None
                      | Some ch \<Rightarrow> map_option (apfst (Cons ch)) (parse_chars rest))
                 | _ \<Rightarrow> None)
              else
                (case unescape e of
                   None \<Rightarrow> None
                 | Some ch \<Rightarrow> map_option (apfst (Cons ch)) (parse_chars cs'))))
      else if of_char c < (32::nat) then None
      else map_option (apfst (Cons c)) (parse_chars cs))"

fun parse_value :: "nat \<Rightarrow> string \<Rightarrow> (json \<times> string) option"
and parse_elems :: "nat \<Rightarrow> string \<Rightarrow> (json list \<times> string) option"
and parse_members :: "nat \<Rightarrow> string \<Rightarrow> ((string \<times> json) list \<times> string) option" where
  "parse_value 0 s = None"
| "parse_value (Suc n) s =
     (case skip_ws s of
        [] \<Rightarrow> None
      | c # cs \<Rightarrow>
          (if c = quote_char then map_option (apfst JString) (parse_chars cs)
           else if c = CHR ''['' then
             (case skip_ws cs of
                d # ds \<Rightarrow>
                  (if d = CHR '']'' then Some (JArray [], ds)
                   else map_option (apfst JArray) (parse_elems n cs))
              | [] \<Rightarrow> None)
           else if c = CHR ''{'' then
             (case skip_ws cs of
                d # ds \<Rightarrow>
                  (if d = CHR ''}'' then Some (JObject [], ds)
                   else map_option (apfst JObject) (parse_members n cs))
              | [] \<Rightarrow> None)
           else None))"
| "parse_elems 0 s = None"
| "parse_elems (Suc n) s =
     (case parse_value n s of
        None \<Rightarrow> None
      | Some (v, r) \<Rightarrow>
          (case skip_ws r of
             [] \<Rightarrow> None
           | c # r' \<Rightarrow>
               (if c = CHR '','' then map_option (apfst (Cons v)) (parse_elems n r')
                else if c = CHR '']'' then Some ([v], r')
                else None)))"
| "parse_members 0 s = None"
| "parse_members (Suc n) s =
     (case skip_ws s of
        [] \<Rightarrow> None
      | c # cs \<Rightarrow>
          (if c \<noteq> quote_char then None
           else
             (case parse_chars cs of
                None \<Rightarrow> None
              | Some (k, r) \<Rightarrow>
                  (case skip_ws r of
                     [] \<Rightarrow> None
                   | d # r2 \<Rightarrow>
                       (if d \<noteq> CHR '':'' then None
                        else
                          (case parse_value n r2 of
                             None \<Rightarrow> None
                           | Some (v, r3) \<Rightarrow>
                               (case skip_ws r3 of
                                  [] \<Rightarrow> None
                                | e # r4 \<Rightarrow>
                                    (if e = CHR '','' then
                                       map_option (apfst (Cons (k, v))) (parse_members n r4)
                                     else if e = CHR ''}'' then Some ([(k, v)], r4)
                                     else None))))))))"

text \<open>The nesting the decoder needs: one unit of fuel per value and per list element.\<close>

fun fuel :: "json \<Rightarrow> nat" where
  "fuel (JString s) = 1"
| "fuel (JArray vs) = Suc (length vs + sum_list (map fuel vs))"
| "fuel (JObject kvs) = Suc (length kvs + sum_list (map (\<lambda>(k, v). fuel v) kvs))"

definition loads :: "string \<Rightarrow> json option" where
  "loads s =
     (case parse_value (Suc (length s)) s of
        None \<Rightarrow> None
      | Some (v, r) \<Rightarrow> (if skip_ws r = [] then Some v else None))"

subsection \<open>The resource\<close>

text \<open>The dict literal of lines 104--116 and the text the handler returns.\<close>

definition categories_doc :: json where
  "categories_doc =
     JObject [(''categories'',
               JArray (map JString [''Food'', ''Travel'', ''Transport'', ''Shopping'', ''Bills'',
                                    ''Healthcare'', ''Education'', ''Business'', ''Other'']))]"

definition categories :: string where
  "categories = dumps 0 categories_doc"

subsection \<open>Decoding the printed text\<close>

lemma hex_val_hex_digit: "n < 16 \<Longrightarrow> hex_val (hex_digit n) = Some n"
  by (simp add: hex_val_def hex_digit_def of_char_of Let_def)

lemma hex4_u_escape:
  "hex4 (CHR ''0'') (CHR ''0'') (hex_digit (of_char c div 16)) (hex_digit (of_char c mod 16)) = Some c"
proof -
  have lt: "of_char c < (256::nat)" by (rule nat_of_char_less_256)
  then have "of_char c div 16 < (16::nat)" by (simp add: less_mult_imp_div_less)
  moreover have "hex_val (CHR ''0'') = Some 0" by (simp add: hex_val_def)
  ultimately show ?thesis
    using lt by (simp add: hex4_def hex_val_hex_digit)
qed

lemma parse_chars_esc:
  "parse_chars (esc_char c @ t) = map_option (apfst (Cons c)) (parse_chars t)"
  by (simp add: esc_char_def u_escape_def hex4_u_escape unescape_def)

lemma parse_chars_enc:
  "parse_chars (concat (map esc_char s) @ quote_char # rest) = Some (s, rest)"
  by (induction s) (simp_all add: parse_chars_esc)

lemma dropWhile_replicate_append:
  "P c \<Longrightarrow> dropWhile P (replicate n c @ s) = dropWhile P s"
  by (induction n) simp_all

lemma skip_ws_newline_indent [simp]: "skip_ws (newline_indent l @ s) = skip_ws s"
  by (simp add: skip_ws_def newline_indent_def is_ws_def dropWhile_replicate_append)

lemma skip_ws_space [simp]: "skip_ws (CHR '' '' # s) = skip_ws s"
  by (simp add: skip_ws_def is_ws_def)

lemma skip_ws_Cons [simp]: "\<not> is_ws c \<Longrightarrow> skip_ws (c # s) = c # s"
  by (simp add: skip_ws_def)

lemma join_str_Cons: "xs \<noteq> [] \<Longrightarrow> join_str sep (x # xs) = x @ sep @ join_str sep xs"
  by (cases xs) simp_all

lemma dumps_Cons:
  "\<exists>r. dumps l v = quote_char # r \<or> dumps l v = CHR ''['' # r \<or> dumps l v = CHR ''{'' # r"
  by (cases v) (auto simp: enc_str_def)

lemma skip_ws_dumps [simp]: "skip_ws (dumps l v @ s) = dumps l v @ s"
  using dumps_Cons [of l v] by (auto simp: is_ws_def)

lemma parse_value_indent [simp]:
  "parse_value n (newline_indent l @ s) = parse_value n s"
  by (cases n) simp_all

lemma parse_value_space [simp]: "parse_value n (CHR '' '' # s) = parse_value n s"
  by (cases n) simp_all

lemma parse_elems_dumps:
  assumes "\<forall>x\<in>set vs. \<forall>n l rest. fuel x \<le> n \<longrightarrow> parse_value n (dumps l x @ rest) = Some (x, rest)"
    and "vs \<noteq> []" and "length vs + sum_list (map fuel vs) \<le> n"
  shows "parse_elems n (newline_indent (Suc l) @
           join_str ('','' @ newline_indent (Suc l)) (map (dumps (Suc l)) vs) @
           newline_indent l @ '']'' @ rest) = Some (vs, rest)"
  using assms
proof (induction vs arbitrary: n)
  case Nil
  then show ?case by simp
next
  case (Cons v vs)
  then obtain m where n: "n = Suc m" and m: "length vs + fuel v + sum_list (map fuel vs) \<le> m"
    by (cases n) auto
  show ?case
  proof (cases "vs = []")
    case True
    then show ?thesis
      using Cons.prems(1) m by (simp add: n is_ws_def)
  next
    case False
    have "parse_elems m (newline_indent (Suc l) @
           join_str ('','' @ newline_indent (Suc l)) (map (dumps (Suc l)) vs) @
           newline_indent l @ '']'' @ rest) = Some (vs, rest)"
      using Cons.IH [OF _ False] Cons.prems(1) m by simp
    then show ?thesis
      using False Cons.prems(1) m by (simp add: n join_str_Cons is_ws_def)
  qed
qed

lemma parse_members_dumps:
  assumes "\<forall>(k, x)\<in>set kvs. \<forall>n l rest. fuel x \<le> n \<longrightarrow> parse_value n (dumps l x @ rest) = Some (x, rest)"
    and "kvs \<noteq> []" and "length kvs + sum_list (map (\<lambda>(k, v). fuel v) kvs) \<le> n"
  shows "parse_members n (newline_indent (Suc l) @
           join_str ('','' @ newline_indent (Suc l))
             (map (\<lambda>(k, v). enc_str k @ '': '' @ dumps (Suc l) v) kvs) @
           newline_indent l @ ''}'' @ rest) = Some (kvs, rest)"
  using assms
proof (induction kvs arbitrary: n)
  case Nil
  then show ?case by simp
next
  case (Cons kv kvs)
  obtain k v where kv: "kv = (k, v)" by fastforce
  obtain m where n: "n = Suc m" and m: "length kvs + fuel v + sum_list (map (\<lambda>(k, v). fuel v) kvs) \<le> m"
    using Cons.prems(3) kv by (cases n) auto
  have v: "parse_value m (dumps (Suc l) v @ s) = Some (v, s)" for s
    using Cons.prems(1) kv m by auto
  show ?case
  proof (cases "kvs = []")
    case True
    then show ?thesis
      using v by (simp add: n kv enc_str_def parse_chars_enc is_ws_def)
  next
    case False
    have "parse_members m (newline_indent (Suc l) @
           join_str ('','' @ newline_indent (Suc l))
             (map (\<lambda>(k, v). enc_str k @ '': '' @ dumps (Suc l) v) kvs) @
           newline_indent l @ ''}'' @ rest) = Some (kvs, rest)"
      using Cons.IH [OF _ False] Cons.prems(1) m by auto
    then show ?thesis
      using False v
      by (simp add: n kv join_str_Cons enc_str_def parse_chars_enc is_ws_def)
  qed
qed

lemma join_str_map_hd:
  "vs \<noteq> [] \<Longrightarrow> \<exists>r. join_str sep (map f vs) = f (hd vs) @ r"
  by (cases vs rule: list.exhaust; cases "tl vs") auto

lemma parse_dumps: "fuel v \<le> n \<Longrightarrow> parse_value n (dumps l v @ rest) = Some (v, rest)"
proof (induction v arbitrary: n l rest)
  case (JString s)
  then obtain m where "n = Suc m" by (cases n) auto
  then show ?case by (simp add: enc_str_def parse_chars_enc is_ws_def)
next
  case (JArray vs)
  obtain m where n: "n = Suc m" using JArray.prems by (cases n) auto
  show ?case
  proof (cases "vs = []")
    case True
    then show ?thesis by (simp add: n is_ws_def)
  next
    case False
    obtain r where r: "join_str ('','' @ newline_indent (Suc l)) (map (dumps (Suc l)) vs) =
                        dumps (Suc l) (hd vs) @ r"
      using join_str_map_hd [OF False] by blast
    obtain r' where r': "dumps (Suc l) (hd vs) = quote_char # r' \<or>
        dumps (Suc l) (hd vs) = CHR ''['' # r' \<or> dumps (Suc l) (hd vs) = CHR ''{'' # r'"
      using dumps_Cons by blast
    have "parse_elems m (newline_indent (Suc l) @
           join_str ('','' @ newline_indent (Suc l)) (map (dumps (Suc l)) vs) @
           newline_indent l @ '']'' @ rest) = Some (vs, rest)"
      using JArray.IH JArray.prems False by (intro parse_elems_dumps) (auto simp: n)
    then show ?thesis
      using False r r' by (auto simp: n is_ws_def)
  qed
next
  case (JObject kvs)
  obtain m where n: "n = Suc m" using JObject.prems by (cases n) auto
  show ?case
  proof (cases "kvs = []")
    case True
    then show ?thesis by (simp add: n is_ws_def)
  next
    case False
    obtain r where r: "join_str ('','' @ newline_indent (Suc l))
          (map (\<lambda>(k, v). enc_str k @ '': '' @ dumps (Suc l) v) kvs) =
        (case hd kvs of (k, v) \<Rightarrow> enc_str k @ '': '' @ dumps (Suc l) v) @ r"
      using join_str_map_hd [OF False] by blast
    have "parse_members m (newline_indent (Suc l) @
           join_str ('','' @ newline_indent (Suc l))
             (map (\<lambda>(k, v). enc_str k @ '': '' @ dumps (Suc l) v) kvs) @
           newline_indent l @ ''}'' @ rest) = Some (kvs, rest)"
      using JObject.IH JObject.prems False by (intro parse_members_dumps) (auto simp: n)
    then show ?thesis
      using False r by (auto simp: n is_ws_def enc_str_def split: prod.splits)
  qed
qed

lemma length_join_str:
  "xs \<noteq> [] \<Longrightarrow>
   length (join_str sep xs) = sum_list (map length xs) + (length xs - 1) * length sep"
  by (induction sep xs rule: join_str.induct) auto

lemma fuel_le_length: "fuel v \<le> length (dumps l v)"
proof (induction v arbitrary: l)
  case (JString s)
  then show ?case by (simp add: enc_str_def)
next
  case (JArray vs)
  let ?sep = "'','' @ newline_indent (Suc l)"
  have f: "sum_list (map fuel vs) \<le> sum_list (map length (map (dumps (Suc l)) vs))"
    using JArray.IH by (simp add: sum_list_mono)
  have "length vs - 1 \<le> (length vs - 1) * length ?sep" by simp
  then show ?case
    using f by (auto simp: length_join_str newline_indent_def)
next
  case (JObject kvs)
  let ?sep = "'','' @ newline_indent (Suc l)"
  let ?f = "\<lambda>(k, v). enc_str k @ '': '' @ dumps (Suc l) v"
  have "(\<Sum>kv\<leftarrow>kvs. case kv of (k, v) \<Rightarrow> fuel v) \<le> (\<Sum>kv\<leftarrow>kvs. length (?f kv))"
  proof (rule sum_list_mono)
    fix kv assume kv: "kv \<in> set kvs"
    obtain k v where p: "kv = (k, v)" by fastforce
    have "fuel v \<le> length (dumps (Suc l) v)"
      using JObject.IH [OF kv] p by (simp add: prod_set_simps)
    then show "(case kv of (k, v) \<Rightarrow> fuel v) \<le> length (?f kv)" by (simp add: p)
  qed
  moreover have "length kvs - 1 \<le> (length kvs - 1) * length ?sep" by simp
  ultimately show ?case
    by (auto simp: length_join_str newline_indent_def comp_def)
qed

lemma loads_dumps: "loads (dumps 0 v) = Some v"
  using parse_dumps [of v "Suc (length (dumps 0 v))" 0 "[]"] fuel_le_length [of v 0]
  by (simp add: loads_def skip_ws_def)


end
