(* ===== verification/Summary_Filter.thy ===== *)
theory Summary_Filter
  imports Queries
begin

text \<open>
  The category filter of \<open>summarize\<close> (src/main.py lines 88--90) against what the
  spec says of it (section 4.4): a present category narrows the rows to that category
  before grouping, which is the same as filtering the unfiltered summary, and leaves
  at most one result row.  Both hold for every non-empty category; the empty one is
  the exception of \<open>summarize_empty_category\<close>.
\<close>

subsection \<open>Lemmas on filtering groups\<close>

lemma filter_perm_single:
  assumes "length (filter P xs) \<le> 1" and "mset ys = mset xs"
  shows "filter P ys = filter P xs"
proof -
  have m: "mset (filter P ys) = mset (filter P xs)" using assms(2) by simp
  then have "length (filter P ys) = length (filter P xs)" by (metis size_mset)
  then show ?thesis
    using m assms(1)
    by (cases "filter P xs"; cases "filter P ys") auto
qed

lemma filter_eq_distinct:
  "distinct xs \<Longrightarrow> filter (\<lambda>x. x = c) xs = (if c \<in> set xs then [c] else [])"
  by (induction xs) auto

lemma summary_of_filter_cat:
  "summary_of (filter (\<lambda>r. category r = c) xs) c = summary_of xs c"
  by (simp add: summary_of_def)

lemma group_by_ref_cat:
  "filter (\<lambda>g. grp_category g = c) (group_by_ref xs) =
   (if c \<in> set (map category xs) then [summary_of xs c] else [])"
proof -
  have "filter (\<lambda>g. grp_category g = c) (group_by_ref xs) =
        map (summary_of xs) (filter (\<lambda>d. d = c) (sorted_list_of_set (set (map category xs))))"
    by (simp add: group_by_ref_def filter_map comp_def)
  then show ?thesis by (simp add: filter_eq_distinct)
qed

lemma group_by_ref_single:
  "group_by_ref (filter (\<lambda>r. category r = c) xs) =
   (if c \<in> set (map category xs) then [summary_of xs c] else [])"
proof -
  have "set (map category (filter (\<lambda>r. category r = c) xs)) =
        (if c \<in> set (map category xs) then {c} else {})"
    by auto
  then show ?thesis
    by (simp add: group_by_ref_def summary_of_filter_cat)
qed

lemma summarize_filter_core:
  "c \<noteq> [] \<Longrightarrow>
   summarize f db s e (Some c) =
     map_sum id (filter (\<lambda>d. map_of d ''category'' = Some (Text c))) (summarize f db s e None) \<and>
   (\<forall>gs. summarize f db s e (Some c) = Inr gs \<longrightarrow> length gs \<le> 1)"
proof -
  assume c: "c \<noteq> []"
  have key: "filter (\<lambda>d. map_of d ''category'' = Some (Text c)) (map summary_dict gs) =
             map summary_dict (filter (\<lambda>g. grp_category g = c) gs)" for gs
    by (induction gs) (simp_all add: summary_dict_def)
  have one: "filter (\<lambda>g. grp_category g = c) (sort_desc total_amount (group_by_ref xs)) =
             (if c \<in> set (map category xs) then [summary_of xs c] else [])" for xs
  proof -
    have "filter (\<lambda>g. grp_category g = c) (sort_desc total_amount (group_by_ref xs)) =
          filter (\<lambda>g. grp_category g = c) (group_by_ref xs)"
      by (rule filter_perm_single) (simp_all add: group_by_ref_cat)
    then show ?thesis by (simp add: group_by_ref_cat)
  qed
  show ?thesis
    using c by (auto simp: summarize_eq category_rows_def group_by_category_ref group_by_ref_single
        key one split: option.split)
qed


subsection \<open>Properties of the category filter\<close>

text \<open>
  C19. For a non-empty category, \<open>summarize(start, end, category)\<close> returns exactly
  the entries of \<open>summarize(start, end)\<close> whose category is that one, in the same
  order, and fails exactly when the unfiltered call fails, with the same error.
\<close>

theorem summarize_filter_equiv:
  "c \<noteq> [] \<Longrightarrow>
   summarize f db s e (Some c) =
     map_sum id (filter (\<lambda>d. map_of d ''category'' = Some (Text c))) (summarize f db s e None)"
  using summarize_filter_core by blast

theorem summarize_filter_equiv_witness:
  "summarize no_faults \<lparr>expenses = Some ex_table\<rparr> ''2024-01-01'' ''2024-01-31'' (Some ''Travel'') =
     map_sum id (filter (\<lambda>d. map_of d ''category'' = Some (Text ''Travel'')))
       (summarize no_faults \<lparr>expenses = Some ex_table\<rparr> ''2024-01-01'' ''2024-01-31'' None)"
  by (rule summarize_filter_equiv) simp

text \<open>
  C20. For a non-empty category, a successful \<open>summarize\<close> returns at most one row.
\<close>

theorem summarize_filter_single:
  "c \<noteq> [] \<Longrightarrow> summarize f db s e (Some c) = Inr gs \<Longrightarrow> length gs \<le> 1"
  using summarize_filter_core by blast

theorem summarize_filter_single_witness:
  "length [summary_dict \<lparr>grp_category = ''Travel'', total_amount = 5, row_count = 1\<rparr>] \<le> 1"
proof -
  have "summarize no_faults \<lparr>expenses = Some ex_table\<rparr> ''2024-01-01'' ''2024-01-31'' (Some ''Travel'') =
      Inr [summary_dict \<lparr>grp_category = ''Travel'', total_amount = 5, row_count = 1\<rparr>]"
    by (simp add: summarize_eq group_by_category_def ex_table_def range_rows_def category_rows_def
             start_group_def)
  then show ?thesis by (rule summarize_filter_single [rotated]) simp
qed

end
