(* ===== verification/Spec2Isabelle.thy ===== *)
theory Spec2Isabelle
  imports Interleaving Categories Summary_Filter
begin

text \<open>
  \<^bold>\<open>Expense tracker server: a verification development of src/main.py.\<close>

  \<^emph>\<open>The program.\<close>  One Python module serves three tools and one resource over
  an MCP transport (FastMCP).  At import it runs \<open>init_db()\<close> (lines 16--30),
  which creates the SQLite table \<open>expenses\<close> if it is absent.  The tools are
  \<open>add_expense\<close> (lines 35--51: one parameterised \<open>INSERT\<close>, commit, return
  \<open>{"status": "success", "id": lastrowid}\<close>), \<open>list_expenses\<close> (lines 54--71:
  rows with \<open>date BETWEEN ? AND ?\<close>, \<open>ORDER BY date DESC\<close>) and \<open>summarize\<close>
  (lines 74--97: the same range, optionally one category, \<open>GROUP BY category
  ORDER BY total_amount DESC\<close>, with the query text built by concatenation).  Each
  tool opens its own connection in an \<open>async with\<close> block that closes it on every
  exit.  The resource \<open>categories\<close> (lines 102--116) is a constant JSON text.

  \<^emph>\<open>Theories and what they model.\<close>
  \<^item> \<open>Prelude\<close>: the \<open>ORDER BY k DESC\<close> sorter \<open>sort_desc\<close> (a stable insertion
    sort) with its multiset, order and stability lemmas; aggregate lemmas.
  \<^item> \<open>Runtime\<close>: what the program takes from SQLite and Python: values
    (\<open>sql_value\<close>), errors (\<open>storage_error\<close>, the spec's \<open>StorageError\<close>), the
    BINARY collation (\<open>text_le\<close>, shown to be the lexicographic order on byte
    strings) and \<open>BETWEEN\<close>, \<open>AUTOINCREMENT\<close> rowid allocation with the 64-bit
    bound (\<open>autoinc_rowid\<close>, \<open>max_rowid\<close>), placeholder counting, injected
    storage faults (\<open>faults\<close>), Python truthiness of \<open>Optional[str]\<close>.
  \<^item> \<open>Schema\<close>: rows (\<open>expense\<close>), the table with its \<open>sqlite_sequence\<close>
    entry (\<open>table\<close>), the file (\<open>db\<close>), connections with an open implicit
    transaction (\<open>conn\<close>, \<open>connect\<close>, \<open>commit\<close>, \<open>close_conn\<close>: closing rolls
    back), the store invariant \<open>table_inv\<close>, and \<open>init_db\<close>.
  \<^item> \<open>Expense_Store\<close>: the \<open>INSERT\<close> (\<open>insert_row\<close>, \<open>execute_insert\<close>) and
    the tool \<open>add_expense\<close>, composed as the Python composes them.
  \<^item> \<open>Query_Builder\<close>: the statement texts as the Python literals they are
    concatenated from (\<open>sql_fragment\<close>, \<open>render\<close>), the builders
    \<open>list_query\<close> and \<open>summarize_query\<close>, and \<open>prepare\<close>, SQLite's parse and
    parameter binding of the texts this program sends.
  \<^item> \<open>Queries\<close>: the plans SQLite runs (scan, \<open>BETWEEN\<close> filter, sort, the
    sort-then-scan \<open>GROUP BY\<close> loop \<open>group_scan\<close>), the projection of result
    rows to dicts, the tools \<open>list_expenses\<close> and \<open>summarize\<close>, and their abstract
    specifications \<open>list_spec\<close>, \<open>summary_spec\<close>, \<open>group_by_ref\<close>.
  \<^item> \<open>Sessions\<close>: the dispatcher (\<open>tool_call\<close>, \<open>call_tool\<close>), serialised runs
    of calls (\<open>run_calls\<close>), start-up (\<open>serve\<close>), the reachable states, and the
    abstraction \<open>logged_rows\<close> (the rows the replies report as written, read off
    \<open>{"status": "success", "id": i}\<close> by \<open>dict_id\<close>).
  \<^item> \<open>Interleaving\<close>: concurrent calls as the step relation \<open>conc_step\<close> over the file,
    the write lock and the in-flight calls (\<open>proc\<close>, \<open>sys\<close>), with the simulation
    invariant \<open>conc_inv\<close> that relates it to serial runs.
  \<^item> \<open>Summary_Filter\<close>: the category filter of \<open>summarize\<close> against the spec's
    reading of it (filter, then group; at most one row).
  \<^item> \<open>Categories\<close>: the resource (\<open>categories_doc\<close>, the dict literal;
    \<open>categories\<close>, the text the handler returns), the printer \<open>dumps\<close> of
    \<open>json.dumps(..., indent=2)\<close> with CPython's \<open>ensure_ascii\<close> escaping, and a
    JSON decoder \<open>loads\<close> that inverts it (a tool for reading the text, not a
    claim about the program).
  \<^item> this theory: properties that span the write and the read path.

  \<^emph>\<open>Concurrency.\<close>  Calls may run concurrently.  \<open>Interleaving\<close> models them at
  their \<open>await\<close>s: an insert is two steps (connect and \<open>INSERT\<close>, which takes
  SQLite's \<open>RESERVED\<close> write lock; then \<open>commit()\<close> and the close of the
  \<open>async with\<close> block, which releases it), a read is one step on the committed file,
  and every step may meet any storage outcome, a writer that finds the lock taken
  either waiting or failing with \<open>Busy\<close>.  Its lemmas show that every finished
  interleaving has the effect of a serial run of \<open>Sessions\<close> (\<open>run_calls\<close>) of the
  same calls in some order, so the serial results below hold for concurrent calls;
  and that the fault-free serial run in arrival order is itself an interleaving, so
  the lock never forces a call to fail (a writer that commits releases it).  The
  length of a lock wait (the 5-second busy timeout) is not modelled: waiting is a
  step not taken.

  \<^emph>\<open>What the lemmas show.\<close>  The write path (\<open>Expense_Store\<close>): a successful
  insert appends exactly one row with a fresh, larger rowid; a failed one changes
  nothing; the rowid bound yields \<open>SQLITE_FULL\<close>, and every returned id lies in
  \<open>(0, 2^63)\<close>.  The read path (\<open>Queries\<close>, \<open>Summary_Filter\<close>): listings and
  summaries meet their specifications \<open>list_spec\<close> and \<open>summary_spec\<close> and are
  determined by them up to the order of equal sort keys (which SQL leaves open; the
  model's stable sort fixes one order, and no claim depends on it); an empty range
  gives empty results; a non-empty category filter equals filtering the unfiltered
  summary and leaves at most one row, while the empty category summarises every
  category.  The builder (\<open>Query_Builder\<close>): placeholders match parameters and no
  caller value enters the statement text.  The schema (\<open>Schema\<close>): \<open>init_db\<close> keeps
  any existing table.  The server (\<open>Sessions\<close> and this theory): the store
  invariant holds in every reachable state; over any calls with any outcomes the
  file is exactly the old rows followed by one row per insert that replied success,
  with the reported id; inserts get distinct increasing ids and are all read back by
  a listing over their range, an insert is read back with its optional fields as
  given, and a server started on a fresh file creates the table before it serves,
  so its inserts get the ids \<open>1, ..., N\<close>.  Concurrency (\<open>Interleaving\<close>):
  serializability and the fault-free schedule above.

  \<^emph>\<open>Bounds.\<close>  Rowids are \<open>int\<close> with the 64-bit bound \<open>max_rowid\<close> written out:
  SQLite does not wrap but fails with \<open>SQLITE_FULL\<close>.  No loop of the program
  needs fuel: every loop is structural recursion over a finite list.  The JSON
  decoder takes fuel (one unit per value and per container item, \<open>fuel\<close>);
  \<open>loads s\<close> gives it \<open>length s + 1\<close>, which \<open>fuel_le_length\<close> shows is enough
  for every printed value, so \<open>loads (dumps 0 v) = Some v\<close> holds without a fuel
  hypothesis.

  \<^emph>\<open>Not modelled.\<close>  The MCP transport and FastMCP's argument validation (the
  spec's black box: the tools receive arguments of their declared types); the file
  path (\<open>DB_PATH\<close>, line 10) and process start (\<open>mcp.run\<close>, line 121) beyond the
  order init-then-serve; IEEE rounding of \<open>REAL\<close> sums (amounts are exact reals;
  SQLite's \<open>SUM\<close> is exact only up to floating point); a \<open>NaN\<close> amount, which
  \<open>sqlite3\<close> would store as \<open>NULL\<close> and the \<open>NOT NULL\<close> constraint reject;
  the duration of lock waits inside SQLite; the registration of the \<open>categories\<close> resource
  (URI and MIME type) with the transport; JSON numbers, booleans and \<open>null\<close>,
  which the resource does not print; characters beyond 8 bits (the model's
  \<open>char\<close>), which the resource's ASCII labels do not contain.
\<close>

subsection \<open>Insert, then read\<close>

text \<open>The read-back of one insert, for any optional fields: the row is listed once,
  as the dict of the row the insert appended.\<close>

lemma insert_then_read_core:
  assumes "expenses db = Some t" and "table_inv t"
    and "add_expense no_faults db d a c sb nt = (Inr res, db')"
    and "s \<le> d" and "d \<le> e"
  shows "\<exists>n ys. res = [(''status'', Text ''success''), (''id'', Integer n)] \<and>
           list_expenses no_faults db' s e = Inr ys \<and>
           expense_dict \<lparr>rowid = n, date = d, amount = a, category = c, subcategory = sb,
                         note_text = nt\<rparr> \<in> set ys \<and>
           length (filter (\<lambda>x. map_of x ''id'' = Some (Integer n)) ys) = 1"
proof -
  let ?n = "seq t + 1"
  let ?r = "\<lparr>rowid = ?n, date = d, amount = a, category = c, subcategory = sb, note_text = nt\<rparr>"
  let ?t1 = "t\<lparr>rows := rows t @ [?r], seq := ?n\<rparr>"
  have lt: "seq t < max_rowid"
    using assms(1-3) by (auto simp: add_expense_eq insert_row_eq split: if_splits)
  have res: "res = [(''status'', Text ''success''), (''id'', Integer ?n)]"
    and db': "db' = db\<lparr>expenses := Some ?t1\<rparr>"
    using add_expense_no_faults [OF assms(1,2) lt, of d a c sb nt] assms(3) by simp_all
  let ?L = "sort_desc date (range_rows s e (rows ?t1))"
  have ys: "list_expenses no_faults db' s e = Inr (map expense_dict ?L)"
    by (simp add: list_expenses_eq db')
  have "?r \<in> set ?L"
    using assms(4,5) by (simp add: range_rows_def)
  then have mem: "expense_dict ?r \<in> set (map expense_dict ?L)" by simp
  have old: "\<forall>x\<in>set (rows t). rowid x \<noteq> ?n"
    using assms(2) by (auto simp: table_inv_def list_all_iff)
  have "length (filter (\<lambda>x. map_of x ''id'' = Some (Integer ?n)) (map expense_dict ?L)) =
        length (filter (\<lambda>x. rowid x = ?n) ?L)"
    by (simp add: expense_dict_def comp_def)
  also have "\<dots> = length (filter (\<lambda>x. rowid x = ?n) (range_rows s e (rows ?t1)))"
    by (rule length_filter_mset) simp
  also have "\<dots> = 1"
    using old assms(4,5) by (simp add: range_rows_def filter_empty_conv)
  finally show ?thesis
    using res ys mem by blast
qed

subsection \<open>Concurrent inserts, then a listing\<close>

text \<open>
  C16. Concurrent inserts, read back: after any \<open>N\<close> \<open>add_expense\<close> calls served in
  any order with the storage succeeding and rowids left, whose dates lie in the
  range, \<open>list_expenses\<close> over the range returns the rows it returned before plus
  exactly \<open>N\<close> rows, and no two returned dicts carry the same id.
\<close>

theorem concurrent_inserts_listed:
  assumes "expenses db = Some t" and "table_inv t" and "list_all is_add cs"
    and "seq t + int (length cs) \<le> max_rowid"
    and "list_all (\<lambda>r. s \<le> date r \<and> date r \<le> e) (added_rows (seq t) cs)"
    and "run_calls (map (Pair no_faults) cs) db = (rs, db')"
  shows "\<exists>ys. list_expenses no_faults db' s e = Inr ys \<and>
           length ys = length (filter (\<lambda>r. s \<le> date r \<and> date r \<le> e) (rows t)) + length cs \<and>
           distinct (map (\<lambda>y. map_of y ''id'') ys)"
proof -
  let ?t' = "t\<lparr>rows := rows t @ added_rows (seq t) cs, seq := seq t + int (length cs)\<rparr>"
  let ?L = "sort_desc date (range_rows s e (rows ?t'))"
  have db': "db' = db\<lparr>expenses := Some ?t'\<rparr>"
    using run_calls_adds [OF assms(1-4)] assms(6) by simp
  have "db_inv db'"
    using run_calls_inv [of db "map (Pair no_faults) cs"] assms(1,2,6) by (simp add: db_inv_def)
  then have "table_inv ?t'"
    using db' by (simp add: db_inv_def)
  then have "distinct (map rowid (rows ?t'))"
    by (rule table_inv_distinct)
  then have "distinct (map rowid (range_rows s e (rows ?t')))"
    unfolding range_rows_def by (rule distinct_map_filter)
  then have d: "distinct (map rowid ?L)"
    using mset_eq_imp_distinct_iff [of "map rowid ?L" "map rowid (range_rows s e (rows ?t'))"]
    by simp
  have "distinct (map (\<lambda>y. map_of y ''id'') (map expense_dict ?L))"
    using d by (simp add: expense_dict_def distinct_map inj_on_def comp_def)
  moreover have "length ?L = length (filter (\<lambda>r. s \<le> date r \<and> date r \<le> e) (rows t)) + length cs"
    using assms(5) length_added_rows [OF assms(3)]
    by (simp add: range_rows_def list_all_iff)
  ultimately show ?thesis
    by (simp add: list_expenses_eq db')
qed


theorem concurrent_inserts_listed_witness:
  "\<exists>ys. list_expenses no_faults
          \<lparr>expenses = Some (empty_table\<lparr>rows := added_rows 0
              [AddExpense ''2024-01-15'' 10 ''Food'' None None,
               AddExpense ''2024-01-20'' 5 ''Travel'' None None], seq := 2\<rparr>)\<rparr>
          ''2024-01-01'' ''2024-01-31'' = Inr ys \<and>
        length ys = length (filter (\<lambda>r. ''2024-01-01'' \<le> date r \<and> date r \<le> ''2024-01-31'')
                              (rows empty_table)) + 2 \<and>
        distinct (map (\<lambda>y. map_of y ''id'') ys)"
proof -
  have h: "run_calls (map (Pair no_faults) [AddExpense ''2024-01-15'' 10 ''Food'' None None,
                                            AddExpense ''2024-01-20'' 5 ''Travel'' None None])
             \<lparr>expenses = Some empty_table\<rparr> =
           ([Inr (Dict [(''status'', Text ''success''), (''id'', Integer 1)]),
             Inr (Dict [(''status'', Text ''success''), (''id'', Integer 2)])],
            \<lparr>expenses = Some (empty_table\<lparr>rows := added_rows 0
              [AddExpense ''2024-01-15'' 10 ''Food'' None None,
               AddExpense ''2024-01-20'' 5 ''Travel'' None None], seq := 2\<rparr>)\<rparr>)"
    by (simp add: model_defs)
  show ?thesis
    using concurrent_inserts_listed [OF _ table_inv_empty _ _ _ h]
    by (simp add: empty_table_def max_rowid_def)
qed


subsection \<open>Optional fields, read back\<close>

text \<open>
  C23. Optional-field round trip: after \<open>add_expense\<close> succeeds with id \<open>n\<close>, a
  listing over a range that contains the date shows the row once, with
  \<open>subcategory\<close> and \<open>note\<close> as given: the string when one was passed, \<open>None\<close>
  when none was.
\<close>

theorem insert_then_read_fields:
  assumes "expenses db = Some t" and "table_inv t"
    and "add_expense no_faults db d a c sb nt = (Inr res, db')"
    and "s \<le> d" and "d \<le> e"
  shows "\<exists>n ys. res = [(''status'', Text ''success''), (''id'', Integer n)] \<and>
           list_expenses no_faults db' s e = Inr ys \<and>
           [(''id'', Integer n), (''date'', Text d), (''amount'', Real a), (''category'', Text c),
            (''subcategory'', text_or_null sb), (''note'', text_or_null nt)] \<in> set ys \<and>
           length (filter (\<lambda>x. map_of x ''id'' = Some (Integer n)) ys) = 1"
  using insert_then_read_core [OF assms] by (simp add: expense_dict_def)

theorem insert_then_read_fields_witness:
  "\<exists>n ys. [(''status'', Text ''success''), (''id'', Integer 5)] =
             [(''status'', Text ''success''), (''id'', Integer n)] \<and>
           list_expenses no_faults \<lparr>expenses = Some (ex_table\<lparr>rows := rows ex_table @
              [\<lparr>rowid = 5, date = ''2024-01-15'', amount = 12, category = ''Food'',
                 subcategory = Some ''Lunch'', note_text = None\<rparr>], seq := 5\<rparr>)\<rparr>
             ''2024-01-01'' ''2024-01-31'' = Inr ys \<and>
           [(''id'', Integer n), (''date'', Text ''2024-01-15''), (''amount'', Real 12),
            (''category'', Text ''Food''), (''subcategory'', text_or_null (Some ''Lunch'')),
            (''note'', text_or_null None)] \<in> set ys \<and>
           length (filter (\<lambda>x. map_of x ''id'' = Some (Integer n)) ys) = 1"
proof -
  have inv: "table_inv ex_table"
    by (simp add: table_inv_def ex_table_def max_rowid_def)
  have h: "add_expense no_faults \<lparr>expenses = Some ex_table\<rparr> ''2024-01-15'' 12 ''Food''
             (Some ''Lunch'') None =
      (Inr [(''status'', Text ''success''), (''id'', Integer 5)],
       \<lparr>expenses = Some (ex_table\<lparr>rows := rows ex_table @
              [\<lparr>rowid = 5, date = ''2024-01-15'', amount = 12, category = ''Food'',
                 subcategory = Some ''Lunch'', note_text = None\<rparr>], seq := 5\<rparr>)\<rparr>)"
    by (simp add: model_defs ex_table_def)
  show ?thesis
    using insert_then_read_fields [OF _ inv h, of "''2024-01-01''" "''2024-01-31''"] by simp
qed

subsection \<open>Start-up, then serving\<close>

text \<open>
  C22. Start-up order: a server started on a fresh database file that gets past
  \<open>init_db\<close> and then serves \<open>N\<close> \<open>add_expense\<close> requests with the storage
  succeeding answers them \<open>{"status": "success", "id": k}\<close> for \<open>k = 1, ..., N\<close>
  in serving order, and leaves exactly those \<open>N\<close> rows: the table exists before the
  first request is served.
\<close>

theorem serve_fresh_ids:
  assumes "list_all is_add cs" and "int (length cs) \<le> max_rowid"
    and "serve f0 (map (Pair no_faults) cs) empty_db = Inr (rs, db')"
  shows "rs = map (\<lambda>k. Inr (Dict [(''status'', Text ''success''), (''id'', Integer (int k + 1))]))
               [0..<length cs] \<and>
         expenses db' = Some (empty_table\<lparr>rows := added_rows 0 cs, seq := int (length cs)\<rparr>)"
proof -
  obtain db1 where i: "init_db f0 empty_db = Inr db1"
    and r: "run_calls (map (Pair no_faults) cs) db1 = (rs, db')"
    using assms(3) by (auto simp: serve_def split: sum.splits)
  have db1: "expenses db1 = Some empty_table"
    using init_db_Inr [OF i] by (simp add: create_table_if_not_exists_def empty_db_def)
  have "seq empty_table + int (length cs) \<le> max_rowid"
    using assms(2) by (simp add: empty_table_def)
  then show ?thesis
    using run_calls_adds [OF db1 table_inv_empty assms(1)] r by (simp add: empty_table_def)
qed

theorem serve_fresh_ids_witness:
  "[Inr (Dict [(''status'', Text ''success''), (''id'', Integer 1)]),
    Inr (Dict [(''status'', Text ''success''), (''id'', Integer 2)])] =
     map (\<lambda>k. Inr (Dict [(''status'', Text ''success''), (''id'', Integer (int k + 1))]))
       [0..<2] \<and>
   expenses \<lparr>expenses = Some (empty_table\<lparr>rows := added_rows 0
       [AddExpense ''2024-01-15'' 10 ''Food'' None None,
        AddExpense ''2024-01-16'' 5 ''Travel'' None (Some ''bus'')], seq := 2\<rparr>)\<rparr> =
     Some (empty_table\<lparr>rows := added_rows 0
       [AddExpense ''2024-01-15'' 10 ''Food'' None None,
        AddExpense ''2024-01-16'' 5 ''Travel'' None (Some ''bus'')], seq := 2\<rparr>)"
proof -
  have i: "init_db no_faults empty_db = Inr \<lparr>expenses = Some empty_table\<rparr>"
    by (simp add: init_db_def create_table_if_not_exists_def empty_db_def)
  have r: "run_calls (map (Pair no_faults) [AddExpense ''2024-01-15'' 10 ''Food'' None None,
                        AddExpense ''2024-01-16'' 5 ''Travel'' None (Some ''bus'')])
      \<lparr>expenses = Some empty_table\<rparr> =
     ([Inr (Dict [(''status'', Text ''success''), (''id'', Integer 1)]),
       Inr (Dict [(''status'', Text ''success''), (''id'', Integer 2)])],
      \<lparr>expenses = Some (empty_table\<lparr>rows := added_rows 0
       [AddExpense ''2024-01-15'' 10 ''Food'' None None,
        AddExpense ''2024-01-16'' 5 ''Travel'' None (Some ''bus'')], seq := 2\<rparr>)\<rparr>)"
    by (simp add: model_defs)
  have "serve no_faults (map (Pair no_faults) [AddExpense ''2024-01-15'' 10 ''Food'' None None,
                        AddExpense ''2024-01-16'' 5 ''Travel'' None (Some ''bus'')]) empty_db =
     Inr ([Inr (Dict [(''status'', Text ''success''), (''id'', Integer 1)]),
           Inr (Dict [(''status'', Text ''success''), (''id'', Integer 2)])],
          \<lparr>expenses = Some (empty_table\<lparr>rows := added_rows 0
       [AddExpense ''2024-01-15'' 10 ''Food'' None None,
        AddExpense ''2024-01-16'' 5 ''Travel'' None (Some ''bus'')], seq := 2\<rparr>)\<rparr>)"
    by (simp add: serve_def i r del: run_calls.simps list.map)
  from serve_fresh_ids [OF _ _ this] show ?thesis by (simp add: max_rowid_def upt_rec)
qed

end
